(* ===== verification/Prelude.thy ===== *)
theory Prelude
  imports Main "HOL-Library.Word"
begin

text \<open>
  Shared vocabulary of the development: machine integers, byte buffers, the faults
  a C++ operation of ARABA can run into, little-endian object representations, and the
  generic lemmas on lists and words that the component theories use.

  The model is the program built for x86-64 Linux (LP64, little-endian), which is what
  the raw memory copies of the source assume: \<open>size_t\<close> has 64 bits, a \<open>uint16_t\<close> is
  laid out low byte first.  A C array of bytes is a list of \<open>8 word\<close>; a MAC address
  (\<open>uint8_t[6]\<close>) is such a list of length 6.
\<close>

unbundle bit_operations_syntax

type_synonym u8 = "8 word"
type_synonym u16 = "16 word"
type_synonym u32 = "32 word"
type_synonym u64 = "64 word"
type_synonym bytes = "u8 list"
type_synonym mac = "u8 list"

named_theorems len_simps "lengths of the buffers the operations produce"

section \<open>Faults\<close>

text \<open>
  What the source can do besides returning: touch memory outside a buffer, divide by zero,
  throw one of the two exceptions of \<open>std::stoul\<close>, or lock a \<open>std::mutex\<close> the
  thread already owns.  A fallible operation returns \<open>fault + 'a\<close>.
\<close>

datatype fault =
    Out_of_bounds
  | Division_by_zero
  | Invalid_argument
  | Out_of_range
  | Relock

section \<open>Lists\<close>

text \<open>\<open>memcpy(buf + off, src, n)\<close> on a buffer that is large enough.\<close>

definition overwrite :: "'a list \<Rightarrow> nat \<Rightarrow> 'a list \<Rightarrow> 'a list" where
  "overwrite buf off src = take off buf @ src @ drop (off + length src) buf"

lemma length_overwrite [simp, len_simps]:
  "off + length src \<le> length buf \<Longrightarrow> length (overwrite buf off src) = length buf"
  by (simp add: overwrite_def)

lemma overwrite_0: "overwrite buf 0 src = src @ drop (length src) buf"
  by (simp add: overwrite_def)

lemma overwrite_Nil [simp]: "overwrite buf off [] = buf"
  by (simp add: overwrite_def)

lemma take_overwrite_0 [simp]: "n \<le> length src \<Longrightarrow> take n (overwrite buf 0 src) = take n src"
  by (simp add: overwrite_0)

lemma overwrite_overwrite_adjacent:
  "length xs + length ys \<le> length buf \<Longrightarrow>
    overwrite (overwrite buf 0 xs) (length xs) ys = (xs @ ys) @ drop (length xs + length ys) buf"
  by (simp add: overwrite_def add.commute)

lemma take_overwrite_end:
  "off \<le> length buf \<Longrightarrow> take (off + length src) (overwrite buf off src) = take off buf @ src"
  by (simp add: overwrite_def)

lemma overwrite_append:
  "off + length xs + length ys \<le> length buf \<Longrightarrow>
    overwrite (overwrite buf off xs) (off + length xs) ys = overwrite buf off (xs @ ys)"
  by (simp add: overwrite_def ac_simps)

lemma drop_overwrite:
  "off + length src \<le> n \<Longrightarrow> off \<le> length buf \<Longrightarrow> drop n (overwrite buf off src) = drop n buf"
  by (simp add: overwrite_def)

lemma map_nth_upt_id: "n = length xs \<Longrightarrow> map (\<lambda>i. xs ! i) [0..<n] = xs"
  by (simp add: map_nth)

lemma take_drop_nth_eq:
  "length xs = length ys \<Longrightarrow> (\<And>i. i < length xs \<Longrightarrow> xs ! i = ys ! i) \<Longrightarrow> xs = ys"
  by (rule nth_equalityI)

text \<open>A list is its first \<open>k\<close> elements followed by the rest, in chunk-sized steps.\<close>

lemma concat_chunks:
  "concat (map (\<lambda>i. take k (drop (i * k) xs)) [0..<n]) = take (n * k) xs"
proof (induction n)
  case 0
  show ?case by simp
next
  case (Suc n)
  have "take (n * k + k) xs = take (n * k) xs @ take k (drop (n * k) xs)"
    by (rule take_add)
  then have "take (Suc n * k) xs = take (n * k) xs @ take k (drop (n * k) xs)"
    by (simp add: add.commute)
  with Suc show ?case by simp
qed

section \<open>Words\<close>

lemma xor_cancel [simp]:
  fixes a :: "'a::len word"
  shows "(b XOR a) XOR a = b" "a XOR (a XOR b) = b"
  by (simp_all add: xor.assoc flip: xor.assoc [of a a b])

lemma xor_inj: "(a XOR k = b XOR k) \<longleftrightarrow> (a = b)" for k :: "'a::len word"
  by (metis xor_cancel(1))

lemma unat_u8_less [simp]: "unat (b :: u8) < 256"
  using unsigned_less [of b, where ?'a = nat] by simp

lemma of_nat_eq_iff_u8: "n < 256 \<Longrightarrow> m < 256 \<Longrightarrow> (of_nat n = (of_nat m :: u8)) \<longleftrightarrow> n = m"
  by (simp add: word_of_nat_eq_iff take_bit_nat_eq_self)

subsection \<open>Characters as bytes\<close>

text \<open>The conversions between \<open>char\<close> and \<open>uint8_t\<close>: same object representation.\<close>

definition char_byte :: "char \<Rightarrow> u8" where
  "char_byte c = of_nat (of_char c)"

definition byte_char :: "u8 \<Rightarrow> char" where
  "byte_char b = char_of (unat b)"

lemma byte_char_char_byte [simp]: "byte_char (char_byte c) = c"
  by (simp add: byte_char_def char_byte_def unat_of_nat take_bit_nat_eq_self)

lemma char_byte_byte_char [simp]: "char_byte (byte_char b) = b"
  by (simp add: byte_char_def char_byte_def take_bit_nat_eq_self)

lemma char_byte_inj: "char_byte c = char_byte d \<longleftrightarrow> c = d"
  by (metis byte_char_char_byte)

subsection \<open>Little-endian representation\<close>

text \<open>
  \<open>le_bytes n w\<close> is the object representation of the \<open>n\<close>-byte integer \<open>w\<close>, and
  \<open>of_le_bytes\<close> reads one back: what \<open>memcpy\<close> between an integer and a byte buffer
  does on a little-endian machine.
\<close>

primrec le_bytes :: "nat \<Rightarrow> 'a::len word \<Rightarrow> bytes" where
  "le_bytes 0 w = []"
| "le_bytes (Suc n) w = ucast w # le_bytes n (drop_bit 8 w)"

primrec of_le_bytes :: "bytes \<Rightarrow> 'a::len word" where
  "of_le_bytes [] = 0"
| "of_le_bytes (b # bs) = ucast b OR push_bit 8 (of_le_bytes bs)"

lemma length_le_bytes [simp, len_simps]: "length (le_bytes n w) = n"
  by (induction n arbitrary: w) auto

lemma byte_or_rest: "(ucast (ucast w :: u8) OR push_bit 8 (take_bit k (drop_bit 8 w)) :: 'a::len word)
    = take_bit (k + 8) w"
  by (rule bit_word_eqI) (auto simp: bit_simps)

lemma of_le_bytes_le_bytes: "of_le_bytes (le_bytes n w) = take_bit (8 * n) (w :: 'a::len word)"
proof (induction n arbitrary: w)
  case 0
  show ?case by simp
next
  case (Suc n)
  show ?case by (simp add: Suc byte_or_rest add.commute)
qed

lemma le_bytes_inverse [simp]:
  "LENGTH('a) \<le> 8 * n \<Longrightarrow> of_le_bytes (le_bytes n w) = (w :: 'a::len word)"
  by (simp add: of_le_bytes_le_bytes take_bit_word_eq_self)

lemma ucast_u8_of_le_Cons:
  "8 \<le> LENGTH('a) \<Longrightarrow> ucast (ucast (b::u8) OR push_bit 8 w :: 'a::len word) = b"
  by (rule bit_word_eqI) (auto simp: bit_simps)

lemma drop_bit_of_le_Cons:
  "drop_bit 8 (ucast (b::u8) OR push_bit 8 w :: 'a::len word) = take_bit (LENGTH('a) - 8) w"
  by (rule bit_word_eqI) (auto simp: bit_simps dest: bit_imp_le_length)

lemma le_bytes_take_bit: "8 * n \<le> k \<Longrightarrow> le_bytes n (take_bit k w) = le_bytes n w"
proof (induction n arbitrary: k w)
  case 0
  show ?case by simp
next
  case (Suc n)
  have "ucast (take_bit k w) = (ucast w :: u8)"
    using Suc.prems by (intro bit_word_eqI) (auto simp: bit_simps)
  moreover have "drop_bit 8 (take_bit k w) = take_bit (k - 8) (drop_bit 8 w)"
    by (rule drop_bit_take_bit)
  ultimately show ?case
    using Suc by simp
qed

lemma of_le_bytes_inverse [simp]:
  "length bs = n \<Longrightarrow> 8 * n \<le> LENGTH('a) \<Longrightarrow> le_bytes n (of_le_bytes bs :: 'a::len word) = bs"
proof (induction n arbitrary: bs)
  case 0
  then show ?case by simp
next
  case (Suc n)
  then obtain b bs' where bs: "bs = b # bs'" "length bs' = n"
    by (cases bs) auto
  with Suc show ?case
    by (simp add: ucast_u8_of_le_Cons drop_bit_of_le_Cons le_bytes_take_bit del: drop_bit_or)
qed

end
