(* ===== verification/Galois.thy ===== *)
theory Galois
  imports Prelude
begin

text \<open>
  \<open>src/crypto.cpp\<close>, the byte level: the two substitution tables, the round
  constants, multiplication in the field of AES (\<open>gmul\<close>), and the two word helpers of
  the key schedule.  The lemmas show that the tables are inverse to each other, that
  \<open>gmul\<close> by a constant is a combination of \<open>xtime\<close> powers, and that it distributes
  over exclusive or, which is all the mixing step needs to be invertible.
\<close>

section \<open>Tables\<close>

definition sbox :: "u8 list" where
  "sbox =
    [0x63, 0x7c, 0x77, 0x7b, 0xf2, 0x6b, 0x6f, 0xc5, 0x30, 0x01, 0x67, 0x2b, 0xfe, 0xd7, 0xab, 0x76,
     0xca, 0x82, 0xc9, 0x7d, 0xfa, 0x59, 0x47, 0xf0, 0xad, 0xd4, 0xa2, 0xaf, 0x9c, 0xa4, 0x72, 0xc0,
     0xb7, 0xfd, 0x93, 0x26, 0x36, 0x3f, 0xf7, 0xcc, 0x34, 0xa5, 0xe5, 0xf1, 0x71, 0xd8, 0x31, 0x15,
     0x04, 0xc7, 0x23, 0xc3, 0x18, 0x96, 0x05, 0x9a, 0x07, 0x12, 0x80, 0xe2, 0xeb, 0x27, 0xb2, 0x75,
     0x09, 0x83, 0x2c, 0x1a, 0x1b, 0x6e, 0x5a, 0xa0, 0x52, 0x3b, 0xd6, 0xb3, 0x29, 0xe3, 0x2f, 0x84,
     0x53, 0xd1, 0x00, 0xed, 0x20, 0xfc, 0xb1, 0x5b, 0x6a, 0xcb, 0xbe, 0x39, 0x4a, 0x4c, 0x58, 0xcf,
     0xd0, 0xef, 0xaa, 0xfb, 0x43, 0x4d, 0x33, 0x85, 0x45, 0xf9, 0x02, 0x7f, 0x50, 0x3c, 0x9f, 0xa8,
     0x51, 0xa3, 0x40, 0x8f, 0x92, 0x9d, 0x38, 0xf5, 0xbc, 0xb6, 0xda, 0x21, 0x10, 0xff, 0xf3, 0xd2,
     0xcd, 0x0c, 0x13, 0xec, 0x5f, 0x97, 0x44, 0x17, 0xc4, 0xa7, 0x7e, 0x3d, 0x64, 0x5d, 0x19, 0x73,
     0x60, 0x81, 0x4f, 0xdc, 0x22, 0x2a, 0x90, 0x88, 0x46, 0xee, 0xb8, 0x14, 0xde, 0x5e, 0x0b, 0xdb,
     0xe0, 0x32, 0x3a, 0x0a, 0x49, 0x06, 0x24, 0x5c, 0xc2, 0xd3, 0xac, 0x62, 0x91, 0x95, 0xe4, 0x79,
     0xe7, 0xc8, 0x37, 0x6d, 0x8d, 0xd5, 0x4e, 0xa9, 0x6c, 0x56, 0xf4, 0xea, 0x65, 0x7a, 0xae, 0x08,
     0xba, 0x78, 0x25, 0x2e, 0x1c, 0xa6, 0xb4, 0xc6, 0xe8, 0xdd, 0x74, 0x1f, 0x4b, 0xbd, 0x8b, 0x8a,
     0x70, 0x3e, 0xb5, 0x66, 0x48, 0x03, 0xf6, 0x0e, 0x61, 0x35, 0x57, 0xb9, 0x86, 0xc1, 0x1d, 0x9e,
     0xe1, 0xf8, 0x98, 0x11, 0x69, 0xd9, 0x8e, 0x94, 0x9b, 0x1e, 0x87, 0xe9, 0xce, 0x55, 0x28, 0xdf,
     0x8c, 0xa1, 0x89, 0x0d, 0xbf, 0xe6, 0x42, 0x68, 0x41, 0x99, 0x2d, 0x0f, 0xb0, 0x54, 0xbb, 0x16]"

definition inv_sbox :: "u8 list" where
  "inv_sbox =
    [0x52, 0x09, 0x6a, 0xd5, 0x30, 0x36, 0xa5, 0x38, 0xbf, 0x40, 0xa3, 0x9e, 0x81, 0xf3, 0xd7, 0xfb,
     0x7c, 0xe3, 0x39, 0x82, 0x9b, 0x2f, 0xff, 0x87, 0x34, 0x8e, 0x43, 0x44, 0xc4, 0xde, 0xe9, 0xcb,
     0x54, 0x7b, 0x94, 0x32, 0xa6, 0xc2, 0x23, 0x3d, 0xee, 0x4c, 0x95, 0x0b, 0x42, 0xfa, 0xc3, 0x4e,
     0x08, 0x2e, 0xa1, 0x66, 0x28, 0xd9, 0x24, 0xb2, 0x76, 0x5b, 0xa2, 0x49, 0x6d, 0x8b, 0xd1, 0x25,
     0x72, 0xf8, 0xf6, 0x64, 0x86, 0x68, 0x98, 0x16, 0xd4, 0xa4, 0x5c, 0xcc, 0x5d, 0x65, 0xb6, 0x92,
     0x6c, 0x70, 0x48, 0x50, 0xfd, 0xed, 0xb9, 0xda, 0x5e, 0x15, 0x46, 0x57, 0xa7, 0x8d, 0x9d, 0x84,
     0x90, 0xd8, 0xab, 0x00, 0x8c, 0xbc, 0xd3, 0x0a, 0xf7, 0xe4, 0x58, 0x05, 0xb8, 0xb3, 0x45, 0x06,
     0xd0, 0x2c, 0x1e, 0x8f, 0xca, 0x3f, 0x0f, 0x02, 0xc1, 0xaf, 0xbd, 0x03, 0x01, 0x13, 0x8a, 0x6b,
     0x3a, 0x91, 0x11, 0x41, 0x4f, 0x67, 0xdc, 0xea, 0x97, 0xf2, 0xcf, 0xce, 0xf0, 0xb4, 0xe6, 0x73,
     0x96, 0xac, 0x74, 0x22, 0xe7, 0xad, 0x35, 0x85, 0xe2, 0xf9, 0x37, 0xe8, 0x1c, 0x75, 0xdf, 0x6e,
     0x47, 0xf1, 0x1a, 0x71, 0x1d, 0x29, 0xc5, 0x89, 0x6f, 0xb7, 0x62, 0x0e, 0xaa, 0x18, 0xbe, 0x1b,
     0xfc, 0x56, 0x3e, 0x4b, 0xc6, 0xd2, 0x79, 0x20, 0x9a, 0xdb, 0xc0, 0xfe, 0x78, 0xcd, 0x5a, 0xf4,
     0x1f, 0xdd, 0xa8, 0x33, 0x88, 0x07, 0xc7, 0x31, 0xb1, 0x12, 0x10, 0x59, 0x27, 0x80, 0xec, 0x5f,
     0x60, 0x51, 0x7f, 0xa9, 0x19, 0xb5, 0x4a, 0x0d, 0x2d, 0xe5, 0x7a, 0x9f, 0x93, 0xc9, 0x9c, 0xef,
     0xa0, 0xe0, 0x3b, 0x4d, 0xae, 0x2a, 0xf5, 0xb0, 0xc8, 0xeb, 0xbb, 0x3c, 0x83, 0x53, 0x99, 0x61,
     0x17, 0x2b, 0x04, 0x7e, 0xba, 0x77, 0xd6, 0x26, 0xe1, 0x69, 0x14, 0x63, 0x55, 0x21, 0x0c, 0x7d]"

definition rcon :: "u8 list" where
  "rcon = [0x00, 0x01, 0x02, 0x04, 0x08, 0x10, 0x20, 0x40, 0x80, 0x1b, 0x36]"

section \<open>Operations\<close>

text \<open>The loop of \<open>gmul\<close> with \<open>n\<close> iterations left.\<close>

primrec gmul_loop :: "nat \<Rightarrow> u8 \<Rightarrow> u8 \<Rightarrow> u8 \<Rightarrow> u8" where
  "gmul_loop 0 a b p = p"
| "gmul_loop (Suc n) a b p =
     (let p' = (if b AND 1 \<noteq> 0 then p XOR a else p);
          hi = a AND 0x80;
          a1 = push_bit 1 a;
          a2 = (if hi \<noteq> 0 then a1 XOR 0x1b else a1)
      in gmul_loop n a2 (drop_bit 1 b) p')"

definition gmul :: "u8 \<Rightarrow> u8 \<Rightarrow> u8" where
  "gmul a b = gmul_loop 8 a b 0"

definition rot_word :: "bytes \<Rightarrow> bytes" where
  "rot_word w = [w ! 1, w ! 2, w ! 3, w ! 0]"

definition sub_word :: "bytes \<Rightarrow> bytes" where
  "sub_word w = map (\<lambda>i. sbox ! unat (w ! i)) [0..<4]"

section \<open>The field\<close>

definition xtime :: "u8 \<Rightarrow> u8" where
  "xtime a = (if a AND 0x80 \<noteq> 0 then push_bit 1 a XOR 0x1b else push_bit 1 a)"

lemma gmul_loop_Suc:
  "gmul_loop (Suc n) a b p =
    gmul_loop n (xtime a) (drop_bit 1 b) (if b AND 1 \<noteq> 0 then p XOR a else p)"
  by (simp add: xtime_def Let_def)

lemma bit_0x80: "bit (0x80 :: u8) n \<longleftrightarrow> n = 7"
proof -
  have "(0x80 :: u8) = 2 ^ 7"
    by simp
  then show ?thesis
    by (simp only: bit_exp_iff) (auto simp: possible_bit_def)
qed

lemma and_0x80_iff: "(a :: u8) AND 0x80 \<noteq> 0 \<longleftrightarrow> bit a 7"
proof
  assume "a AND 0x80 \<noteq> 0"
  then obtain n where "bit (a AND 0x80) n"
    by (metis bit_word_eqI bit_0_eq bot_apply bot_bool_def)
  then show "bit a 7"
    by (auto simp only: bit_and_iff bit_0x80)
next
  assume "bit a 7"
  then have "bit (a AND 0x80) 7"
    by (simp only: bit_and_iff bit_0x80)
  then show "a AND 0x80 \<noteq> 0"
    by (metis bit_0_eq bot_apply bot_bool_def)
qed

lemma xtime_bit: "xtime a = (if bit a 7 then push_bit 1 a XOR 0x1b else push_bit 1 a)"
  by (simp add: xtime_def and_0x80_iff)

lemma xtime_xor [simp]: "xtime (a XOR b) = xtime a XOR xtime b"
  by (simp add: xtime_bit bit_xor_iff ac_simps)

lemma xtime_0 [simp]: "xtime 0 = 0"
  by (simp add: xtime_def)

lemma u8_halves:
  "drop_bit (Suc 0) (0::u8) = 0" "drop_bit (Suc 0) (1::u8) = 0" "drop_bit (Suc 0) (2::u8) = 1"
  "drop_bit (Suc 0) (3::u8) = 1" "drop_bit (Suc 0) (4::u8) = 2" "drop_bit (Suc 0) (5::u8) = 2"
  "drop_bit (Suc 0) (6::u8) = 3" "drop_bit (Suc 0) (7::u8) = 3" "drop_bit (Suc 0) (9::u8) = 4"
  "drop_bit (Suc 0) (11::u8) = 5" "drop_bit (Suc 0) (13::u8) = 6" "drop_bit (Suc 0) (14::u8) = 7"
  by code_simp+

lemma gmul_eq_loop: "gmul a b = gmul_loop (Suc (Suc (Suc (Suc (Suc (Suc (Suc (Suc 0)))))))) a b 0"
  by (simp only: gmul_def eval_nat_numeral BitM.simps One_nat_def)

text \<open>Multiplication by the constants the source uses, as powers of \<open>xtime\<close>.\<close>

lemma gmul_consts:
  "gmul a 0x02 = xtime a"
  "gmul a 0x03 = a XOR xtime a"
  "gmul a 0x09 = a XOR xtime (xtime (xtime a))"
  "gmul a 0x0b = a XOR xtime a XOR xtime (xtime (xtime a))"
  "gmul a 0x0d = a XOR xtime (xtime a) XOR xtime (xtime (xtime a))"
  "gmul a 0x0e = xtime a XOR xtime (xtime a) XOR xtime (xtime (xtime a))"
  by (simp_all only: gmul_eq_loop gmul_loop_Suc One_nat_def u8_halves)
    (simp_all add: xor.assoc)

lemma length_sbox [simp]: "length sbox = 256" "length inv_sbox = 256"
  by (simp_all add: sbox_def inv_sbox_def)

lemma length_words [simp, len_simps]:
  "length (rot_word w) = 4" "length (sub_word w) = 4"
  by (simp_all add: rot_word_def sub_word_def)

lemma inv_sbox_sbox_table:
  "list_all (\<lambda>n. inv_sbox ! unat (sbox ! n) = of_nat n) [0..<256]"
  by code_simp

lemma inv_sbox_sbox [simp]: "inv_sbox ! unat (sbox ! unat (b :: u8)) = b"
proof -
  have "unat b \<in> set [0..<256]"
    using unat_u8_less [of b] by simp
  with inv_sbox_sbox_table have "inv_sbox ! unat (sbox ! unat b) = of_nat (unat b)"
    unfolding list_all_iff by (rule bspec)
  then show ?thesis by simp
qed

text \<open>\<open>rcon\<close> lists the powers of \<open>x\<close> in the field, from its second entry on.\<close>

lemma rcon_powers: "list_all (\<lambda>k. rcon ! (k + 1) = (xtime ^^ k) 1) [0..<10]"
  by code_simp

end
