(* ===== verification/Aes.thy ===== *)
theory Aes
  imports Galois
begin

text \<open>
  \<open>src/crypto.cpp\<close>, class \<open>AES256\<close>: the key schedule and the block transformation.

  A block is a list of 16 bytes.  The member \<open>uint8_t round_keys[60][4]\<close> is one object of
  240 bytes; the source indexes it as \<open>round_keys[i][k]\<close> also with \<open>k >= 4\<close>, which
  reaches byte \<open>4 * i + k\<close> of the object.  The model keeps the object flat, as a list of
  240 bytes, and writes that address out.  The constructor does not clear the object, so its
  previous contents are an argument of \<open>key_expansion\<close>.
\<close>

definition AES_BLOCK_SIZE :: nat where "AES_BLOCK_SIZE = 16"
definition AES_KEY_SIZE :: nat where "AES_KEY_SIZE = 32"
definition AES_ROUNDS :: nat where "AES_ROUNDS = 14"

lemmas aes_sizes = AES_BLOCK_SIZE_def AES_KEY_SIZE_def AES_ROUNDS_def

section \<open>The key schedule\<close>

text \<open>One iteration of the first loop: word \<open>i\<close> of the schedule from the key.\<close>

definition copy_key_word :: "bytes \<Rightarrow> nat \<Rightarrow> bytes \<Rightarrow> bytes" where
  "copy_key_word key i rk =
     (let rk = fold (\<lambda>j rk. rk[4 * i + (j * 4 + 0) := key ! (i * 4 + j)]) [0..<4] rk;
          w0 = rk ! (4 * i + 0);
          w1 = rk ! (4 * i + 4);
          w2 = rk ! (4 * i + 8);
          w3 = rk ! (4 * i + 12)
      in rk[4 * i + 0 := w0, 4 * i + 1 := w1, 4 * i + 2 := w2, 4 * i + 3 := w3])"

text \<open>One iteration of the second loop: word \<open>i\<close> from words \<open>i - 1\<close> and \<open>i - 8\<close>.\<close>

definition expand_word :: "nat \<Rightarrow> bytes \<Rightarrow> bytes" where
  "expand_word i rk =
     (let temp = map (\<lambda>j. rk ! (4 * (i - 1) + j)) [0..<4];
          temp = (if i mod 8 = 0 then
                    (let t = sub_word (rot_word temp) in t[0 := t ! 0 XOR rcon ! (i div 8)])
                  else if i mod 8 = 4 then sub_word temp
                  else temp)
      in fold (\<lambda>j rk. rk[4 * i + j := rk ! (4 * (i - 8) + j) XOR temp ! j]) [0..<4] rk)"

definition key_expansion :: "bytes \<Rightarrow> bytes \<Rightarrow> bytes" where
  "key_expansion mem key = fold expand_word [8..<60] (fold (copy_key_word key) [0..<8] mem)"

section \<open>The block transformation\<close>

definition add_round_key :: "bytes \<Rightarrow> bytes \<Rightarrow> nat \<Rightarrow> bytes" where
  "add_round_key rk state round =
     map (\<lambda>i. state ! i XOR rk ! (4 * round + i)) [0..<AES_BLOCK_SIZE]"

definition sub_bytes :: "bytes \<Rightarrow> bytes" where
  "sub_bytes state = map (\<lambda>i. sbox ! unat (state ! i)) [0..<AES_BLOCK_SIZE]"

definition inv_sub_bytes :: "bytes \<Rightarrow> bytes" where
  "inv_sub_bytes state = map (\<lambda>i. inv_sbox ! unat (state ! i)) [0..<AES_BLOCK_SIZE]"

text \<open>The two row shifts, written by destination index 0 to 15.\<close>

definition shift_rows :: "bytes \<Rightarrow> bytes" where
  "shift_rows t =
     [t ! 0, t ! 5, t ! 10, t ! 15,
      t ! 4, t ! 9, t ! 14, t ! 3,
      t ! 8, t ! 13, t ! 2, t ! 7,
      t ! 12, t ! 1, t ! 6, t ! 11]"

definition inv_shift_rows :: "bytes \<Rightarrow> bytes" where
  "inv_shift_rows t =
     [t ! 0, t ! 13, t ! 10, t ! 7,
      t ! 4, t ! 1, t ! 14, t ! 11,
      t ! 8, t ! 5, t ! 2, t ! 15,
      t ! 12, t ! 9, t ! 6, t ! 3]"

definition mix_column :: "nat \<Rightarrow> bytes \<Rightarrow> bytes" where
  "mix_column c state =
     (let a = (\<lambda>i. state ! (i * 4 + c));
          b = (\<lambda>i. gmul (state ! (i * 4 + c)) 2)
      in state[0 * 4 + c := b 0 XOR gmul (a 1) 3 XOR a 2 XOR a 3,
               1 * 4 + c := a 0 XOR b 1 XOR gmul (a 2) 3 XOR a 3,
               2 * 4 + c := a 0 XOR a 1 XOR b 2 XOR gmul (a 3) 3,
               3 * 4 + c := gmul (a 0) 3 XOR a 1 XOR a 2 XOR b 3])"

definition mix_columns :: "bytes \<Rightarrow> bytes" where
  "mix_columns state = fold mix_column [0..<4] state"

definition inv_mix_column :: "nat \<Rightarrow> bytes \<Rightarrow> bytes" where
  "inv_mix_column c state =
     (let a = (\<lambda>i. state ! (i * 4 + c))
      in state[0 * 4 + c := gmul (a 0) 0x0e XOR gmul (a 1) 0x0b XOR gmul (a 2) 0x0d XOR gmul (a 3) 0x09,
               1 * 4 + c := gmul (a 0) 0x09 XOR gmul (a 1) 0x0e XOR gmul (a 2) 0x0b XOR gmul (a 3) 0x0d,
               2 * 4 + c := gmul (a 0) 0x0d XOR gmul (a 1) 0x09 XOR gmul (a 2) 0x0e XOR gmul (a 3) 0x0b,
               3 * 4 + c := gmul (a 0) 0x0b XOR gmul (a 1) 0x0d XOR gmul (a 2) 0x09 XOR gmul (a 3) 0x0e])"

definition inv_mix_columns :: "bytes \<Rightarrow> bytes" where
  "inv_mix_columns state = fold inv_mix_column [0..<4] state"

definition encrypt_round :: "bytes \<Rightarrow> nat \<Rightarrow> bytes \<Rightarrow> bytes" where
  "encrypt_round rk round s = add_round_key rk (mix_columns (shift_rows (sub_bytes s))) round"

definition encrypt_block :: "bytes \<Rightarrow> bytes \<Rightarrow> bytes" where
  "encrypt_block rk block =
     (let s = add_round_key rk block 0;
          s = fold (encrypt_round rk) [1..<AES_ROUNDS] s;
          s = shift_rows (sub_bytes s)
      in add_round_key rk s AES_ROUNDS)"

definition decrypt_round :: "bytes \<Rightarrow> nat \<Rightarrow> bytes \<Rightarrow> bytes" where
  "decrypt_round rk round s =
     inv_mix_columns (add_round_key rk (inv_sub_bytes (inv_shift_rows s)) round)"

definition decrypt_block :: "bytes \<Rightarrow> bytes \<Rightarrow> bytes" where
  "decrypt_block rk block =
     (let s = add_round_key rk block AES_ROUNDS;
          s = fold (decrypt_round rk) (rev [1..<AES_ROUNDS]) s;
          s = inv_sub_bytes (inv_shift_rows s)
      in add_round_key rk s 0)"

section \<open>Each step and its inverse\<close>

lemma length_steps [simp, len_simps]:
  "length (add_round_key rk s r) = 16" "length (sub_bytes s) = 16" "length (inv_sub_bytes s) = 16"
  "length (shift_rows s) = 16" "length (inv_shift_rows s) = 16"
  by (simp_all add: add_round_key_def sub_bytes_def inv_sub_bytes_def shift_rows_def
      inv_shift_rows_def AES_BLOCK_SIZE_def)

lemma length_mix_columns [simp, len_simps]:
  "length (mix_columns s) = length s" "length (inv_mix_columns s) = length s"
  by (simp_all add: mix_columns_def inv_mix_columns_def mix_column_def inv_mix_column_def Let_def
      eval_nat_numeral)

lemma add_round_key_involution [simp]:
  "length s = 16 \<Longrightarrow> add_round_key rk (add_round_key rk s r) r = s"
  by (rule nth_equalityI) (simp_all add: add_round_key_def AES_BLOCK_SIZE_def)

lemma inv_sub_bytes_sub_bytes [simp]: "length s = 16 \<Longrightarrow> inv_sub_bytes (sub_bytes s) = s"
  by (rule nth_equalityI) (simp_all add: sub_bytes_def inv_sub_bytes_def AES_BLOCK_SIZE_def)

lemma block_cases:
  assumes "length s = 16"
  obtains s0 s1 s2 s3 s4 s5 s6 s7 s8 s9 s10 s11 s12 s13 s14 s15 where
    "s = [s0, s1, s2, s3, s4, s5, s6, s7, s8, s9, s10, s11, s12, s13, s14, s15]"
  using assms by (auto simp: eval_nat_numeral length_Suc_conv)

lemma inv_shift_rows_shift_rows [simp]:
  assumes "length s = 16"
  shows "inv_shift_rows (shift_rows s) = s"
  using assms by (rule block_cases) (simp add: shift_rows_def inv_shift_rows_def)

text \<open>
  The mixing of a column and its inverse, on four bytes.  With multiplication by a constant
  spelled as powers of \<open>xtime\<close>, the inverse law is a cancellation of equal terms.
\<close>

definition mix4 :: "u8 \<Rightarrow> u8 \<Rightarrow> u8 \<Rightarrow> u8 \<Rightarrow> u8" where
  "mix4 a b c d = gmul a 2 XOR gmul b 3 XOR c XOR d"

definition inv_mix4 :: "u8 \<Rightarrow> u8 \<Rightarrow> u8 \<Rightarrow> u8 \<Rightarrow> u8" where
  "inv_mix4 a b c d = gmul a 0x0e XOR gmul b 0x0b XOR gmul c 0x0d XOR gmul d 0x09"

lemma inv_mix4_mix4:
  "inv_mix4 (mix4 a b c d) (mix4 b c d a) (mix4 c d a b) (mix4 d a b c) = a"
  by (simp add: mix4_def inv_mix4_def gmul_consts ac_simps)

lemma mix_columns_eq:
  assumes "s = [s0, s1, s2, s3, s4, s5, s6, s7, s8, s9, s10, s11, s12, s13, s14, s15]"
  shows "mix_columns s =
    [mix4 s0 s4 s8 s12, mix4 s1 s5 s9 s13, mix4 s2 s6 s10 s14, mix4 s3 s7 s11 s15,
     mix4 s4 s8 s12 s0, mix4 s5 s9 s13 s1, mix4 s6 s10 s14 s2, mix4 s7 s11 s15 s3,
     mix4 s8 s12 s0 s4, mix4 s9 s13 s1 s5, mix4 s10 s14 s2 s6, mix4 s11 s15 s3 s7,
     mix4 s12 s0 s4 s8, mix4 s13 s1 s5 s9, mix4 s14 s2 s6 s10, mix4 s15 s3 s7 s11]"
  by (simp add: assms mix_columns_def mix_column_def mix4_def Let_def upt_rec ac_simps)

lemma inv_mix_columns_eq:
  assumes "s = [s0, s1, s2, s3, s4, s5, s6, s7, s8, s9, s10, s11, s12, s13, s14, s15]"
  shows "inv_mix_columns s =
    [inv_mix4 s0 s4 s8 s12, inv_mix4 s1 s5 s9 s13, inv_mix4 s2 s6 s10 s14, inv_mix4 s3 s7 s11 s15,
     inv_mix4 s4 s8 s12 s0, inv_mix4 s5 s9 s13 s1, inv_mix4 s6 s10 s14 s2, inv_mix4 s7 s11 s15 s3,
     inv_mix4 s8 s12 s0 s4, inv_mix4 s9 s13 s1 s5, inv_mix4 s10 s14 s2 s6, inv_mix4 s11 s15 s3 s7,
     inv_mix4 s12 s0 s4 s8, inv_mix4 s13 s1 s5 s9, inv_mix4 s14 s2 s6 s10, inv_mix4 s15 s3 s7 s11]"
  by (simp add: assms inv_mix_columns_def inv_mix_column_def inv_mix4_def Let_def upt_rec ac_simps)

lemma inv_mix_columns_mix_columns [simp]:
  assumes "length s = 16"
  shows "inv_mix_columns (mix_columns s) = s"
  using assms
  by (rule block_cases) (simp add: mix_columns_eq inv_mix_columns_eq inv_mix4_mix4)

section \<open>The block cipher is invertible\<close>

lemma length_encrypt_round [simp]: "length (encrypt_round rk r s) = 16"
  by (simp add: encrypt_round_def)

lemma length_fold_encrypt_round [simp]:
  "length s = 16 \<Longrightarrow> length (fold (encrypt_round rk) rs s) = 16"
  by (induction rs arbitrary: s) auto

lemma length_encrypt_block [simp, len_simps]: "length (encrypt_block rk b) = 16"
  by (simp add: encrypt_block_def)

lemma length_decrypt_block [simp, len_simps]: "length (decrypt_block rk b) = 16"
  by (simp add: decrypt_block_def)

text \<open>
  One decryption round undoes one encryption round, up to the substitution and row shift
  that the source's loops leave pending between rounds.
\<close>

lemma decrypt_round_encrypt_round:
  assumes "length s = 16"
  shows "decrypt_round rk r (shift_rows (sub_bytes (encrypt_round rk r s))) = shift_rows (sub_bytes s)"
  using assms by (simp add: decrypt_round_def encrypt_round_def)

lemma decrypt_rounds_encrypt_rounds:
  assumes "length s = 16"
  shows "fold (decrypt_round rk) (rev rs) (shift_rows (sub_bytes (fold (encrypt_round rk) rs s)))
    = shift_rows (sub_bytes s)"
  using assms
  by (induction rs arbitrary: s) (simp_all add: decrypt_round_encrypt_round)

lemma decrypt_encrypt_block [simp]:
  assumes "length b = 16"
  shows "decrypt_block rk (encrypt_block rk b) = b"
  using assms
  by (simp add: decrypt_block_def encrypt_block_def decrypt_rounds_encrypt_rounds)

text \<open>An injection of a finite set into itself is onto, so decryption inverts on both sides.\<close>

lemma finite_blocks: "finite {b :: bytes. length b = 16}"
  using finite_lists_length_eq [of "UNIV :: u8 set" 16] by simp

lemma encrypt_block_onto:
  assumes "length c = 16"
  shows "\<exists>b. length b = 16 \<and> encrypt_block rk b = c"
proof -
  have "inj_on (encrypt_block rk) {b. length b = 16}"
    by (rule inj_on_inverseI [where g = "decrypt_block rk"]) simp
  then have "encrypt_block rk ` {b. length b = 16} = {b. length b = 16}"
    by (intro endo_inj_surj finite_blocks) auto
  then show ?thesis
    using assms by (metis (mono_tags, lifting) imageE mem_Collect_eq)
qed

lemma encrypt_decrypt_block [simp]:
  assumes "length c = 16"
  shows "encrypt_block rk (decrypt_block rk c) = c"
  using encrypt_block_onto [OF assms, of rk] by force

section \<open>The key schedule computes the recurrence of FIPS-197\<close>

text \<open>
  The reference: word \<open>i\<close> of the expanded key of AES-256, by the recurrence of FIPS-197
  section 5.2, without the in-place loops of the source.
\<close>

fun key_word :: "bytes \<Rightarrow> nat \<Rightarrow> bytes" where
  "key_word key i =
     (if i < 8 then take 4 (drop (4 * i) key)
      else (let t = key_word key (i - 1);
                t' = (if i mod 8 = 0 then map2 (XOR) (sub_word (rot_word t)) [rcon ! (i div 8), 0, 0, 0]
                      else if i mod 8 = 4 then sub_word t else t)
            in map2 (XOR) (key_word key (i - 8)) t'))"

declare key_word.simps [simp del]

definition word_at :: "bytes \<Rightarrow> nat \<Rightarrow> bytes" where
  "word_at rk w = [rk ! (4 * w), rk ! (4 * w + 1), rk ! (4 * w + 2), rk ! (4 * w + 3)]"

lemma word_at_eq: "4 * w + 4 \<le> length rk \<Longrightarrow> word_at rk w = take 4 (drop (4 * w) rk)"
  by (rule nth_equalityI) (auto simp: word_at_def less_Suc_eq numeral_eq_Suc nth_Cons')

lemma upt_0_4: "[0..<4] = [0, 1, 2, 3 :: nat]"
  by code_simp

lemma copy_key_word_unfold:
  assumes "length rk = 240" and "i < 8"
  shows "copy_key_word key i rk =
    rk[4 * i := key ! (4 * i), 4 * i + 4 := key ! (4 * i + 1), 4 * i + 8 := key ! (4 * i + 2),
       4 * i + 12 := key ! (4 * i + 3), 4 * i + 1 := key ! (4 * i + 1), 4 * i + 2 := key ! (4 * i + 2),
       4 * i + 3 := key ! (4 * i + 3)]"
  using assms by (simp add: copy_key_word_def Let_def upt_0_4 nth_list_update mult.commute)

lemma copy_key_word_step:
  assumes "length rk = 240" and "i < 8"
  shows "length (copy_key_word key i rk) = 240"
    and "w < i \<Longrightarrow> word_at (copy_key_word key i rk) w = word_at rk w"
    and "word_at (copy_key_word key i rk) i = word_at key i"
  using assms by (simp_all add: copy_key_word_unfold word_at_def nth_list_update)

lemma copy_key_words:
  assumes "length mem = 240" and "n \<le> 8"
  shows "length (fold (copy_key_word key) [0..<n] mem) = 240 \<and>
    (\<forall>w < n. word_at (fold (copy_key_word key) [0..<n] mem) w = word_at key w)"
  using assms(2)
proof (induction n)
  case 0
  show ?case using assms(1) by simp
next
  case (Suc n)
  then show ?case
    by (auto simp: copy_key_word_step less_Suc_eq)
qed

text \<open>The last loop of the second phase stores the exclusive or of two words.\<close>

lemma store_word:
  assumes "4 * i + 4 \<le> length rk" and "8 \<le> i" and "length t = 4"
  defines "rk' \<equiv> fold (\<lambda>j rk. rk[4 * i + j := rk ! (4 * (i - 8) + j) XOR t ! j]) [0..<4] rk"
  shows "length rk' = length rk"
    and "w < i \<Longrightarrow> word_at rk' w = word_at rk w"
    and "word_at rk' i = map2 (XOR) (word_at rk (i - 8)) t"
proof -
  obtain a b c d where t: "t = [a, b, c, d]"
    using assms(3) by (auto simp: numeral_eq_Suc length_Suc_conv)
  have rk': "rk' = rk[4 * i := rk ! (4 * (i - 8)) XOR a, 4 * i + 1 := rk ! (4 * (i - 8) + 1) XOR b,
      4 * i + 2 := rk ! (4 * (i - 8) + 2) XOR c, 4 * i + 3 := rk ! (4 * (i - 8) + 3) XOR d]"
    using assms(1,2) by (simp add: rk'_def t upt_0_4 nth_list_update)
  show "length rk' = length rk"
    by (simp add: rk')
  show "word_at rk' w = word_at rk w" if "w < i"
    using assms(1,2) that by (simp add: rk' word_at_def nth_list_update)
  show "word_at rk' i = map2 (XOR) (word_at rk (i - 8)) t"
    using assms(1,2) by (simp add: rk' t word_at_def nth_list_update)
qed

definition schedule_temp :: "nat \<Rightarrow> bytes \<Rightarrow> bytes" where
  "schedule_temp i t =
     (if i mod 8 = 0 then map2 (XOR) (sub_word (rot_word t)) [rcon ! (i div 8), 0, 0, 0]
      else if i mod 8 = 4 then sub_word t else t)"

lemma length_schedule_temp [simp]: "length t = 4 \<Longrightarrow> length (schedule_temp i t) = 4"
  by (simp add: schedule_temp_def)

lemma length_word_at [simp]: "length (word_at rk w) = 4"
  by (simp add: word_at_def)

lemma xor_first:
  assumes "length t = 4"
  shows "t[0 := t ! 0 XOR r] = map2 (XOR) t [r, 0, 0, 0 :: u8]"
  using assms by (auto simp: numeral_eq_Suc length_Suc_conv)

lemma expand_word_temp:
  "expand_word i rk =
    fold (\<lambda>j rk. rk[4 * i + j := rk ! (4 * (i - 8) + j) XOR schedule_temp i (word_at rk0 (i - 1)) ! j])
      [0..<4] rk"
  if "rk0 = rk"
proof -
  have w: "map (\<lambda>j. rk ! (4 * (i - 1) + j)) [0..<4] = word_at rk (i - 1)"
    by (simp add: word_at_def upt_0_4)
  show ?thesis
    unfolding expand_word_def w Let_def schedule_temp_def that
    by (simp only: xor_first length_words)
qed

lemma expand_word_step:
  assumes "length rk = 240" and "8 \<le> i" and "i < 60"
  shows "length (expand_word i rk) = 240"
    and "w < i \<Longrightarrow> word_at (expand_word i rk) w = word_at rk w"
    and "word_at (expand_word i rk) i =
      map2 (XOR) (word_at rk (i - 8)) (schedule_temp i (word_at rk (i - 1)))"
  using assms by (simp_all add: expand_word_temp [OF refl] store_word)

lemma key_word_rec:
  "key_word key i =
    (if i < 8 then take 4 (drop (4 * i) key)
     else map2 (XOR) (key_word key (i - 8)) (schedule_temp i (key_word key (i - 1))))"
  by (subst key_word.simps) (simp only: Let_def schedule_temp_def)

lemma expand_words:
  assumes "length rk = 240" and "\<forall>w < 8. word_at rk w = key_word key w" and "8 \<le> n" and "n \<le> 60"
  shows "length (fold expand_word [8..<n] rk) = 240 \<and>
    (\<forall>w < n. word_at (fold expand_word [8..<n] rk) w = key_word key w)"
  using assms(3,4)
proof (induction n rule: dec_induct)
  case base
  then show ?case using assms(1,2) by simp
next
  case (step n)
  let ?rk = "fold expand_word [8..<n] rk"
  have IH: "length ?rk = 240" "\<forall>w < n. word_at ?rk w = key_word key w"
    using step by auto
  have "word_at (expand_word n ?rk) n = key_word key n"
    using IH step by (subst key_word_rec) (simp add: expand_word_step)
  moreover have "\<forall>w < n. word_at (expand_word n ?rk) w = key_word key w"
    using IH step by (simp add: expand_word_step)
  moreover have "length (expand_word n ?rk) = 240"
    using IH step by (simp add: expand_word_step)
  ultimately show ?case
    using step by (auto simp: less_Suc_eq)
qed

lemma key_expansion_words:
  assumes "length mem = 240" and "length key = 32"
  shows "length (key_expansion mem key) = 240 \<and>
    (\<forall>w < 60. word_at (key_expansion mem key) w = key_word key w)"
proof -
  have "\<forall>w < 8. word_at key w = key_word key w"
    using assms(2) by (auto simp: key_word_rec [of key] word_at_eq)
  then show ?thesis
    unfolding key_expansion_def
    using copy_key_words [OF assms(1), of 8 key] by (intro expand_words) auto
qed

lemma key_expansion_eq:
  assumes "length mem = 240" and "length key = 32"
  shows "key_expansion mem key = concat (map (key_word key) [0..<60])"
proof -
  let ?rk = "key_expansion mem key"
  have rk: "length ?rk = 240" "\<forall>w < 60. word_at ?rk w = key_word key w"
    using key_expansion_words [OF assms] by auto
  have "?rk = take (60 * 4) ?rk"
    using rk by simp
  also have "\<dots> = concat (map (\<lambda>i. take 4 (drop (i * 4) ?rk)) [0..<60])"
    by (rule concat_chunks [symmetric])
  also have "map (\<lambda>i. take 4 (drop (i * 4) ?rk)) [0..<60] = map (key_word key) [0..<60]"
  proof (rule map_cong [OF refl])
    fix i :: nat
    assume "i \<in> set [0..<60]"
    then show "take 4 (drop (i * 4) ?rk) = key_word key i"
      using rk word_at_eq [of i ?rk] by (simp add: mult.commute)
  qed
  finally show ?thesis .
qed

section \<open>How much of the schedule the cipher reads\<close>

lemma add_round_key_cong:
  assumes "take 72 rk = take 72 rk'" and "r \<le> AES_ROUNDS"
  shows "add_round_key rk s r = add_round_key rk' s r"
proof -
  have "rk ! n = rk' ! n" if "n < 72" for n
    using assms(1) that by (metis nth_take)
  then show ?thesis
    using assms(2) by (simp add: add_round_key_def aes_sizes)
qed

lemma encrypt_block_cong:
  assumes "take 72 rk = take 72 rk'"
  shows "encrypt_block rk b = encrypt_block rk' b"
proof -
  have "fold (encrypt_round rk) [1..<AES_ROUNDS] s = fold (encrypt_round rk') [1..<AES_ROUNDS] s" for s
    by (rule fold_cong) (auto simp: encrypt_round_def add_round_key_cong [OF assms])
  then show ?thesis
    by (simp add: encrypt_block_def add_round_key_cong [OF assms])
qed

lemma take_words: "length rk = 240 \<Longrightarrow> n \<le> 60 \<Longrightarrow> take (n * 4) rk = concat (map (word_at rk) [0..<n])"
proof -
  assume rk: "length rk = 240" "n \<le> 60"
  have "map (word_at rk) [0..<n] = map (\<lambda>i. take 4 (drop (i * 4) rk)) [0..<n]"
    using rk by (auto simp: word_at_eq mult.commute)
  then show ?thesis
    by (simp only: concat_chunks)
qed

text \<open>The first 18 words are fixed once the second loop has reached word 18.\<close>

definition schedule_upto :: "nat \<Rightarrow> bytes \<Rightarrow> bytes" where
  "schedule_upto n key = fold expand_word [8..<n] (fold (copy_key_word key) [0..<8] (replicate 240 0))"

lemma schedule_upto_words:
  assumes "length key = 32" and "8 \<le> n" and "n \<le> 60"
  shows "length (schedule_upto n key) = 240 \<and>
    (\<forall>w < n. word_at (schedule_upto n key) w = key_word key w)"
proof -
  have "\<forall>w < 8. word_at key w = key_word key w"
    using assms(1) by (auto simp: key_word_rec [of key] word_at_eq)
  then show ?thesis
    unfolding schedule_upto_def
    using copy_key_words [of "replicate 240 0" 8 key] assms(2,3) by (intro expand_words) auto
qed

lemma schedule_prefix:
  assumes "length mem = 240" and "length key = 32"
  shows "take 72 (key_expansion mem key) = take 72 (schedule_upto 18 key)"
proof -
  have rk: "length (schedule_upto 18 key) = 240"
      "\<forall>w < 18. word_at (schedule_upto 18 key) w = key_word key w"
    using schedule_upto_words [OF assms(2), of 18] by auto
  have words: "map (word_at (schedule_upto 18 key)) [0..<18] = map (word_at (key_expansion mem key)) [0..<18]"
    using rk key_expansion_words [OF assms] by auto
  have "take 72 (schedule_upto 18 key) = concat (map (word_at (schedule_upto 18 key)) [0..<18])"
    using take_words [of "schedule_upto 18 key" 18] rk by simp
  moreover have "take 72 (key_expansion mem key) = concat (map (word_at (key_expansion mem key)) [0..<18])"
    using take_words [of "key_expansion mem key" 18] key_expansion_words [OF assms] by simp
  ultimately show ?thesis
    by (simp only: words)
qed

section \<open>Properties\<close>

text \<open>
  C8: For every round-key memory, block decryption undoes block encryption and the other
  way round, so \<open>encrypt_block\<close> is a permutation of the 16-byte blocks.
\<close>
theorem aes_block_inverse:
  assumes "length b = 16"
  shows "decrypt_block rk (encrypt_block rk b) = b \<and> encrypt_block rk (decrypt_block rk b) = b"
  using assms by simp

theorem aes_block_inverse_witness:
  "decrypt_block (replicate 240 7) (encrypt_block (replicate 240 7) (replicate 16 3)) = replicate 16 3"
  using aes_block_inverse [of "replicate 16 3" "replicate 240 7"] by simp

text \<open>
  C9: Whatever the uninitialised round-key memory held, \<open>key_expansion\<close> fills all 240
  bytes with the 60 words of the FIPS-197 recurrence for the key.
\<close>
theorem key_expansion_correct:
  assumes "length mem = 240" and "length key = AES_KEY_SIZE"
  shows "key_expansion mem key = concat (map (key_word key) [0..<60])"
  using assms by (simp add: key_expansion_eq AES_KEY_SIZE_def)

theorem key_expansion_correct_witness:
  "key_expansion (replicate 240 9) (replicate 32 1) = concat (map (key_word (replicate 32 1)) [0..<60])"
  by (rule key_expansion_correct) (simp_all add: AES_KEY_SIZE_def)

end
