(* ===== verification/Aes_Vector.thy ===== *)
theory Aes_Vector
  imports Aes
begin

text \<open>
  The cipher on the AES-256 example vector of FIPS-197 appendix C.3, evaluated round by
  round in the kernel.  The rounds of \<open>encrypt_block\<close> read the schedule with a stride of
  one word instead of four and mix the rows of the state where the row shift treats it as
  columns, so the result is not the standard's ciphertext.
\<close>

definition fips_key :: bytes where
  "fips_key = map of_nat [0..<32]"

definition fips_plaintext :: bytes where
  "fips_plaintext = map (\<lambda>i. of_nat (i * 0x11)) [0..<16]"

definition fips_ciphertext :: bytes where
  "fips_ciphertext =
     [0x8e, 0xa2, 0xb7, 0xca, 0x51, 0x67, 0x45, 0xbf, 0xea, 0xfc, 0x49, 0x90, 0x4b, 0x49, 0x60, 0x89]"

text \<open>The 72 bytes of the key schedule that the cipher reads, for the key of the vector.\<close>

definition fips_schedule :: bytes where
  "fips_schedule =
    [0, 1, 2, 3, 4, 5, 6, 7, 8, 9, 10, 11, 12, 13, 14, 15, 16, 17, 18, 19, 20,
     21, 22, 23, 24, 25, 26, 27, 28, 29, 30, 31, 165, 115, 194, 159, 161, 118,
     196, 152, 169, 127, 206, 147, 165, 114, 192, 156, 22, 81, 168, 205, 2, 68,
     190, 218, 26, 93, 164, 193, 6, 64, 186, 222, 174, 135, 223, 240, 15, 241,
     27, 104]"

lemma fips_schedule_prefix:
  "take 72 (schedule_upto 18 fips_key) = fips_schedule"
  by code_simp

lemma length_fips [simp]: "length fips_key = 32" "length fips_plaintext = 16" "length fips_schedule = 72"
  by (simp_all add: fips_key_def fips_plaintext_def fips_schedule_def)

lemma encrypt_with_fips_key:
  "length mem = 240 \<Longrightarrow>
    encrypt_block (key_expansion mem fips_key) b = encrypt_block fips_schedule b"
  by (rule encrypt_block_cong) (simp add: schedule_prefix fips_schedule_prefix)

lemma upt_0_16: "[0..<16] = [0, 1, 2, 3, 4, 5, 6, 7, 8, 9, 10, 11, 12, 13, 14, 15 :: nat]"
  by code_simp

lemmas eval_round = encrypt_round_def sub_bytes_def AES_BLOCK_SIZE_def upt_0_16 sbox_def shift_rows_def
  mix_columns_eq [OF refl] mix4_def gmul_consts xtime_def add_round_key_def fips_schedule_def

text \<open>The state of the block after the first key addition and after each round.\<close>

lemma fips_round_0:
  "add_round_key fips_schedule fips_plaintext 0 =
    [0, 16, 32, 48, 64, 80, 96, 112, 128, 144, 160, 176, 192, 208, 224, 240]"
  by (simp add: eval_round fips_plaintext_def)

lemma fips_round_1:
  "encrypt_round fips_schedule (Suc 0)
    [0, 16, 32, 48, 64, 80, 96, 112, 128, 144, 160, 176, 192, 208, 224, 240] =
    [174, 185, 130, 190, 143, 192, 33, 155, 50, 155, 17, 23, 30, 123, 196, 28]"
  by (simp add: eval_round)

lemma fips_round_2:
  "encrypt_round fips_schedule 2
    [174, 185, 130, 190, 143, 192, 33, 155, 50, 155, 17, 23, 30, 123, 196, 28] =
    [31, 45, 223, 37, 25, 170, 124, 24, 87, 7, 182, 2, 151, 89, 101, 233]"
  by (simp add: eval_round)

lemma fips_round_3:
  "encrypt_round fips_schedule 3
    [31, 45, 223, 37, 25, 170, 124, 24, 87, 7, 182, 2, 151, 89, 101, 233] =
    [35, 9, 203, 168, 6, 178, 111, 232, 53, 130, 2, 238, 199, 83, 59, 69]"
  by (simp add: eval_round)

lemma fips_round_4:
  "encrypt_round fips_schedule 4
    [35, 9, 203, 168, 6, 178, 111, 232, 53, 130, 2, 238, 199, 83, 59, 69] =
    [189, 166, 118, 33, 139, 41, 55, 120, 55, 255, 82, 226, 24, 184, 49, 164]"
  by (simp add: eval_round)

lemma fips_round_5:
  "encrypt_round fips_schedule 5
    [189, 166, 118, 33, 139, 41, 55, 120, 55, 255, 82, 226, 24, 184, 49, 164] =
    [144, 54, 230, 189, 0, 0, 93, 244, 152, 26, 28, 123, 205, 181, 18, 46]"
  by (simp add: eval_round)

lemma fips_round_6:
  "encrypt_round fips_schedule 6
    [144, 54, 230, 189, 0, 0, 93, 244, 152, 26, 28, 123, 205, 181, 18, 46] =
    [134, 242, 187, 105, 205, 64, 206, 33, 246, 12, 68, 210, 69, 174, 164, 76]"
  by (simp add: eval_round)

lemma fips_round_7:
  "encrypt_round fips_schedule 7
    [134, 242, 187, 105, 205, 64, 206, 33, 246, 12, 68, 210, 69, 174, 164, 76] =
    [100, 123, 146, 21, 40, 35, 229, 246, 110, 210, 223, 109, 70, 119, 77, 157]"
  by (simp add: eval_round)

lemma fips_round_8:
  "encrypt_round fips_schedule 8
    [100, 123, 146, 21, 40, 35, 229, 246, 110, 210, 223, 109, 70, 119, 77, 157] =
    [186, 47, 77, 182, 106, 4, 143, 142, 21, 126, 93, 84, 127, 26, 124, 29]"
  by (simp add: eval_round)

lemma fips_round_9:
  "encrypt_round fips_schedule 9
    [186, 47, 77, 182, 106, 4, 143, 142, 21, 126, 93, 84, 127, 26, 124, 29] =
    [223, 48, 252, 32, 96, 152, 239, 160, 140, 19, 212, 36, 245, 39, 105, 45]"
  by (simp add: eval_round)

lemma fips_round_10:
  "encrypt_round fips_schedule 10
    [223, 48, 252, 32, 96, 152, 239, 160, 140, 19, 212, 36, 245, 39, 105, 45] =
    [103, 188, 33, 44, 202, 133, 117, 60, 161, 229, 24, 35, 216, 55, 138, 146]"
  by (simp add: eval_round)

lemma fips_round_11:
  "encrypt_round fips_schedule 11
    [103, 188, 33, 44, 202, 133, 117, 60, 161, 229, 24, 35, 216, 55, 138, 146] =
    [123, 200, 99, 92, 76, 191, 120, 96, 52, 138, 48, 67, 10, 118, 234, 198]"
  by (simp add: eval_round)

lemma fips_round_12:
  "encrypt_round fips_schedule 12
    [123, 200, 99, 92, 76, 191, 120, 96, 52, 138, 48, 67, 10, 118, 234, 198] =
    [80, 19, 117, 170, 62, 16, 5, 139, 139, 120, 21, 170, 154, 213, 169, 183]"
  by (simp add: eval_round)

lemma fips_round_13:
  "encrypt_round fips_schedule 13
    [80, 19, 117, 170, 62, 16, 5, 139, 139, 120, 21, 170, 154, 213, 169, 183] =
    [236, 106, 148, 237, 201, 140, 151, 192, 78, 183, 172, 78, 191, 135, 172, 194]"
  by (simp add: eval_round)

lemmas fips_rounds = fips_round_0 fips_round_1 fips_round_2 fips_round_3 fips_round_4 fips_round_5
  fips_round_6 fips_round_7 fips_round_8 fips_round_9 fips_round_10 fips_round_11 fips_round_12
  fips_round_13

lemma fips_last_round:
  "add_round_key fips_schedule (shift_rows (sub_bytes
    [236, 106, 148, 237, 201, 140, 151, 192, 78, 183, 172, 78, 191, 135, 172, 194])) 14 =
    [212, 57, 53, 228, 219, 233, 43, 139, 129, 144, 253, 74, 7, 243, 147, 71]"
  by (simp add: eval_round)

lemma upt_1_14: "[1..<14] = [Suc 0, 2, 3, 4, 5, 6, 7, 8, 9, 10, 11, 12, 13]"
  by code_simp

lemma fips_encryption:
  "encrypt_block fips_schedule fips_plaintext =
    [212, 57, 53, 228, 219, 233, 43, 139, 129, 144, 253, 74, 7, 243, 147, 71]"
  by (simp only: encrypt_block_def AES_ROUNDS_def Let_def upt_1_14 fold.simps comp_def id_apply
      fips_rounds fips_last_round)

section \<open>Properties\<close>

text \<open>
  The cipher reads 72 of the 240 bytes of the key schedule: two schedules that agree
  there encrypt every block alike.
\<close>
theorem cipher_reads_72_schedule_bytes:
  assumes "take 72 rk = take 72 rk'"
  shows "encrypt_block rk b = encrypt_block rk' b"
  using assms by (rule encrypt_block_cong)

theorem cipher_reads_72_schedule_bytes_witness:
  "encrypt_block (fips_schedule @ replicate 168 0) fips_plaintext =
    encrypt_block (fips_schedule @ replicate 168 1) fips_plaintext"
  by (rule cipher_reads_72_schedule_bytes) simp

text \<open>
  C30: On the example vector of FIPS-197 C.3 the source's cipher produces
  \<open>d43935e4 dbe92b8b 8190fd4a 07f39347\<close>, which is not the standard's AES-256 ciphertext.
\<close>
theorem not_fips_197:
  assumes "length mem = 240"
  shows "encrypt_block (key_expansion mem fips_key) fips_plaintext =
      [0xd4, 0x39, 0x35, 0xe4, 0xdb, 0xe9, 0x2b, 0x8b, 0x81, 0x90, 0xfd, 0x4a, 0x07, 0xf3, 0x93, 0x47] \<and>
    encrypt_block (key_expansion mem fips_key) fips_plaintext \<noteq> fips_ciphertext"
  using assms by (simp add: encrypt_with_fips_key fips_encryption fips_ciphertext_def)

theorem not_fips_197_witness:
  "encrypt_block (key_expansion (replicate 240 0) fips_key) fips_plaintext \<noteq> fips_ciphertext"
  by (rule conjunct2 [OF not_fips_197]) simp

end
