(* ===== verification/Cxx_Text.thy ===== *)
theory Cxx_Text
  imports Prelude "HOL-Library.Char_ord" "HOL-Library.List_Lexorder"
begin

text \<open>
  The parts of the C++ standard library's text handling the source relies on, in the
  "C" locale and as libstdc++ implements them: \<open>std::isspace\<close>, skipping of white
  space by formatted input, \<open>operator>>\<close> for a \<open>char\<close> and (under \<open>std::hex\<close>) for
  an \<open>int\<close>, \<open>operator<<\<close> for integers, \<open>std::getline\<close> and \<open>std::stoul\<close>.
  A stream is the text still to be read; an extraction that sets \<open>failbit\<close> is \<open>None\<close>
  (no extraction of the source is repeated after a failure).
\<close>

section \<open>Characters\<close>

definition is_space :: "char \<Rightarrow> bool" where
  "is_space c \<longleftrightarrow> c = CHR '' '' \<or> (9 \<le> (of_char c :: nat) \<and> (of_char c :: nat) \<le> 13)"

definition skip_ws :: "string \<Rightarrow> string" where
  "skip_ws s = dropWhile is_space s"

definition hex_digit :: "nat \<Rightarrow> char" where
  "hex_digit n = ''0123456789abcdef'' ! n"

definition digit_value :: "char \<Rightarrow> nat option" where
  "digit_value c = (let n = (of_char c :: nat) in
     if 48 \<le> n \<and> n \<le> 57 then Some (n - 48)
     else if 97 \<le> n \<and> n \<le> 102 then Some (n - 87)
     else if 65 \<le> n \<and> n \<le> 70 then Some (n - 55)
     else None)"

definition is_hex :: "char \<Rightarrow> bool" where
  "is_hex c \<longleftrightarrow> digit_value c \<noteq> None"

definition is_dec :: "char \<Rightarrow> bool" where
  "is_dec c \<longleftrightarrow> 48 \<le> (of_char c :: nat) \<and> (of_char c :: nat) \<le> 57"

definition digits_value :: "nat \<Rightarrow> string \<Rightarrow> nat" where
  "digits_value base s = foldl (\<lambda>acc c. acc * base + (case digit_value c of Some v \<Rightarrow> v | None \<Rightarrow> 0)) 0 s"

section \<open>Formatted output\<close>

text \<open>
  \<open>hex2\<close> is \<open>oss << std::hex << std::setfill('0') << std::setw(2) << (int)b\<close> for a
  byte \<open>b\<close>; \<open>show_dec\<close> is \<open>operator<<\<close> or \<open>std::to_string\<close> of an unsigned
  integer.
\<close>

definition hex2 :: "u8 \<Rightarrow> string" where
  "hex2 b = [hex_digit (unat b div 16), hex_digit (unat b mod 16)]"

fun show_dec :: "nat \<Rightarrow> string" where
  "show_dec n = (if n < 10 then [hex_digit n] else show_dec (n div 10) @ [hex_digit (n mod 10)])"

declare show_dec.simps [simp del]

section \<open>Formatted input\<close>

definition scan_char :: "string \<Rightarrow> (char \<times> string) option" where
  "scan_char s = (case skip_ws s of [] \<Rightarrow> None | c # r \<Rightarrow> Some (c, r))"

text \<open>\<open>iss >> word\<close> for a \<open>std::string\<close>: the next run of characters without white space.\<close>

definition scan_word :: "string \<Rightarrow> (string \<times> string) option" where
  "scan_word s = (let r = skip_ws s in
     if r = [] then None
     else Some (takeWhile (\<lambda>c. \<not> is_space c) r, dropWhile (\<lambda>c. \<not> is_space c) r))"

definition scan_sign :: "string \<Rightarrow> bool \<times> string" where
  "scan_sign s = (case s of
       [] \<Rightarrow> (False, [])
     | c # r \<Rightarrow> if c = CHR ''-'' then (True, r)
               else if c = CHR ''+'' then (False, r)
               else (False, c # r))"

definition strip_0x :: "string \<Rightarrow> string" where
  "strip_0x s = (case s of
       c # x # r \<Rightarrow> if c = CHR ''0'' \<and> (x = CHR ''x'' \<or> x = CHR ''X'') then r else s
     | _ \<Rightarrow> s)"

text \<open>\<open>iss >> std::hex >> v\<close> for an \<open>int v\<close> of 32 bits.\<close>

definition scan_hex_int :: "string \<Rightarrow> (int \<times> string) option" where
  "scan_hex_int s =
     (let (neg, t) = scan_sign (skip_ws s);
          u = strip_0x t;
          ds = takeWhile is_hex u;
          v = digits_value 16 ds
      in if ds = [] then None
         else if neg then (if v \<le> 2 ^ 31 then Some (- int v, dropWhile is_hex u) else None)
         else (if v < 2 ^ 31 then Some (int v, dropWhile is_hex u) else None))"

text \<open>
  \<open>std::stoul(s)\<close> with the default base 10: \<open>strtoul\<close> on the text, an exception when
  it reads no digit or the value does not fit an \<open>unsigned long\<close>; a minus sign negates
  the value modulo \<open>2 ^ 64\<close>.  Characters after the digits are ignored.
\<close>

definition stoul :: "string \<Rightarrow> fault + u64" where
  "stoul s =
     (let (neg, t) = scan_sign (skip_ws s);
          ds = takeWhile is_dec t;
          v = digits_value 10 ds
      in if ds = [] then Inl Invalid_argument
         else if 2 ^ 64 \<le> v then Inl Out_of_range
         else if neg then Inr (- of_nat v) else Inr (of_nat v))"

text \<open>
  The lines a loop of \<open>std::getline\<close> reads from a text: separated by newlines, the
  last one also without a newline, and no empty line after a final newline.
\<close>

fun lines_of :: "string \<Rightarrow> string list" where
  "lines_of [] = []"
| "lines_of (c # s) =
     (if c = CHR 0x0A then [] # lines_of s
      else (case lines_of s of
              [] \<Rightarrow> [[c]]
            | l # ls \<Rightarrow> (c # l) # ls))"

section \<open>Lemmas\<close>

lemma less_16_cases:
  "(n::nat) < 16 \<Longrightarrow> n \<in> {15, 14, 13, 12, 11, 10, 9, 8, 7, 6, 5, 4, 3, 2, 1, 0}"
  by (simp only: insert_iff empty_iff) arith

lemma digit_value_hex_digit [simp]: "n < 16 \<Longrightarrow> digit_value (hex_digit n) = Some n"
  by (drule less_16_cases) (auto simp: hex_digit_def digit_value_def Let_def)

lemma is_hex_hex_digit [simp]: "n < 16 \<Longrightarrow> is_hex (hex_digit n)"
  by (simp add: is_hex_def)

lemma hex_digit_inj: "n < 16 \<Longrightarrow> m < 16 \<Longrightarrow> hex_digit n = hex_digit m \<longleftrightarrow> n = m"
  by (metis digit_value_hex_digit option.inject)

lemma hex_digit_not_special [simp]:
  assumes "n < 16"
  shows "\<not> is_space (hex_digit n)" "hex_digit n \<noteq> CHR ''-''" "hex_digit n \<noteq> CHR ''+''"
    "hex_digit n \<noteq> CHR ''x''" "hex_digit n \<noteq> CHR ''X''" "hex_digit n \<noteq> CHR '':''"
  using less_16_cases [OF assms] by (auto simp: hex_digit_def is_space_def)

lemma byte_nibbles [simp]: "unat (b :: u8) div 16 < 16" "unat b mod 16 < 16"
  using unat_u8_less [of b] by (simp_all add: less_mult_imp_div_less)

lemma length_hex2 [simp, len_simps]: "length (hex2 b) = 2"
  by (simp add: hex2_def)

lemma hex2_inj: "hex2 a = hex2 b \<longleftrightarrow> a = b"
proof
  assume "hex2 a = hex2 b"
  then have "unat a div 16 = unat b div 16" "unat a mod 16 = unat b mod 16"
    by (simp_all add: hex2_def hex_digit_inj)
  then have "unat a = unat b"
    by (metis div_mult_mod_eq)
  then show "a = b" by (simp add: word_eq_iff_unsigned [where ?'a = nat])
qed simp

lemma skip_ws_hex2 [simp]: "skip_ws (hex2 b @ r) = hex2 b @ r"
  by (simp add: skip_ws_def hex2_def)

lemma scan_sign_hex2 [simp]: "scan_sign (hex2 b @ r) = (False, hex2 b @ r)"
  by (simp add: scan_sign_def hex2_def)

lemma strip_0x_hex2 [simp]: "strip_0x (hex2 b @ r) = hex2 b @ r"
  by (simp add: strip_0x_def hex2_def)

lemma digits_value_hex2 [simp]: "digits_value 16 (hex2 b) = unat b"
  by (simp add: digits_value_def hex2_def)

lemma not_hex_colon [simp]: "\<not> is_hex (CHR '':'')"
  by (simp add: is_hex_def digit_value_def)

lemma scan_hex_int_hex2:
  assumes "r = [] \<or> (\<exists>r'. r = CHR '':'' # r')"
  shows "scan_hex_int (hex2 b @ r) = Some (int (unat b), r)"
proof -
  have "takeWhile is_hex r = []" "dropWhile is_hex r = r"
    using assms by auto
  then have "takeWhile is_hex (hex2 b @ r) = hex2 b" "dropWhile is_hex (hex2 b @ r) = r"
    by (simp_all add: hex2_def)
  moreover have "unat b < 2 ^ 31"
    by (rule less_trans [OF unat_u8_less]) simp
  ultimately show ?thesis
    by (simp add: scan_hex_int_def) (simp add: hex2_def)
qed

lemma scan_char_colon [simp]: "scan_char (CHR '':'' # r) = Some (CHR '':'', r)"
  by (simp add: scan_char_def skip_ws_def is_space_def)

subsection \<open>Decimal numbers\<close>

lemma is_dec_hex_digit [simp]: "n < 10 \<Longrightarrow> is_dec (hex_digit n)"
  using less_16_cases [of n] by (auto simp: is_dec_def hex_digit_def)

lemma show_dec_nonempty [simp]: "show_dec n \<noteq> []"
  by (subst show_dec.simps) simp

lemma show_dec_dec: "c \<in> set (show_dec n) \<Longrightarrow> is_dec c"
proof (induction n rule: show_dec.induct)
  case (1 n)
  then show ?case
    by (subst (asm) show_dec.simps) (auto split: if_splits)
qed

lemma is_dec_not_space: "is_dec c \<Longrightarrow> \<not> is_space c"
  by (auto simp: is_dec_def is_space_def)

lemma is_dec_no_sign: "is_dec c \<Longrightarrow> c \<noteq> CHR ''-'' \<and> c \<noteq> CHR ''+''"
  by (auto simp: is_dec_def)

lemma digits_value_snoc:
  "digits_value b (s @ [c]) = digits_value b s * b + (case digit_value c of Some v \<Rightarrow> v | None \<Rightarrow> 0)"
  by (simp add: digits_value_def)

lemma digits_value_show_dec [simp]: "digits_value 10 (show_dec n) = n"
proof (induction n rule: show_dec.induct)
  case (1 n)
  show ?case
  proof (cases "n < 10")
    case True
    then have "show_dec n = [hex_digit n]"
      by (simp add: show_dec.simps [of n])
    then show ?thesis
      using True by (simp add: digits_value_def)
  next
    case False
    then have "show_dec n = show_dec (n div 10) @ [hex_digit (n mod 10)]"
      by (simp add: show_dec.simps [of n])
    then show ?thesis
      using False 1 by (simp add: digits_value_snoc)
  qed
qed

text \<open>\<open>stoul\<close> on a text that starts with a decimal number.\<close>

lemma stoul_show_dec [simp]:
  assumes "n < 2 ^ 64"
  shows "stoul (show_dec n) = Inr (of_nat n)"
proof -
  obtain c r where cr: "show_dec n = c # r"
    using show_dec_nonempty [of n] by (cases "show_dec n") auto
  then have "is_dec c"
    using show_dec_dec [of c n] by simp
  then have "scan_sign (skip_ws (show_dec n)) = (False, show_dec n)"
    using is_dec_not_space is_dec_no_sign by (auto simp: cr skip_ws_def scan_sign_def)
  moreover have "takeWhile is_dec (show_dec n) = show_dec n"
    by (simp add: takeWhile_eq_all_conv show_dec_dec)
  ultimately show ?thesis
    using assms unfolding stoul_def Let_def by (simp only: prod.case digits_value_show_dec) simp
qed

subsection \<open>Lines\<close>

lemma lines_of_line:
  "CHR 0x0A \<notin> set l \<Longrightarrow> lines_of (l @ CHR 0x0A # r) = l # lines_of r"
  by (induction l) auto

lemma lines_of_unlines:
  "\<forall>l \<in> set ls. CHR 0x0A \<notin> set l \<Longrightarrow> lines_of (concat (map (\<lambda>l. l @ [CHR 0x0A]) ls)) = ls"
  by (induction ls) (auto simp: lines_of_line)

end
