(* ===== verification/Packet.thy ===== *)
theory Packet
  imports Cxx_Text
begin

text \<open>
  \<open>include/packet.hpp\<close>: the packet types and limits, the packed header, the packet with
  its fixed payload buffer, \<open>Packet::init\<close>, \<open>Packet::isValid\<close>, the object
  representation that the raw socket code copies in and out, and the two MAC text
  conversions.

  \<open>PacketType\<close> is an enumeration over \<open>uint8_t\<close> that is filled from the wire by
  \<open>memcpy\<close>, so every byte is a value of it: it is a byte here, with the four
  enumerators as constants.
\<close>

section \<open>Constants and data\<close>

definition DISCOVERY :: u8 where "DISCOVERY = 0x01"
definition ROUTE_ADV :: u8 where "ROUTE_ADV = 0x02"
definition DATA :: u8 where "DATA = 0x03"
definition ACK :: u8 where "ACK = 0x04"

lemmas packet_types = DISCOVERY_def ROUTE_ADV_def DATA_def ACK_def

definition MAX_PAYLOAD_SIZE :: nat where "MAX_PAYLOAD_SIZE = 512"
definition PROTOCOL_VERSION :: u8 where "PROTOCOL_VERSION = 0x01"
definition DEFAULT_TTL :: u8 where "DEFAULT_TTL = 64"

record packet_header =
  version :: u8
  ptype :: u8
  ttl :: u8
  source :: mac
  dest :: mac
  sequence_id :: u32
  payload_len :: u16

record packet =
  header :: packet_header
  payload :: bytes

text \<open>The sizes the C types fix.\<close>

definition wf_header :: "packet_header \<Rightarrow> bool" where
  "wf_header h \<longleftrightarrow> length (source h) = 6 \<and> length (dest h) = 6"

definition wf_packet :: "packet \<Rightarrow> bool" where
  "wf_packet p \<longleftrightarrow> wf_header (header p) \<and> length (payload p) = MAX_PAYLOAD_SIZE"

section \<open>Operations\<close>

definition init :: "u8 \<Rightarrow> mac \<Rightarrow> mac \<Rightarrow> u32 \<Rightarrow> packet" where
  "init ty src dst seq =
     \<lparr> header = \<lparr> version = PROTOCOL_VERSION, ptype = ty, ttl = DEFAULT_TTL,
                  source = src, dest = dst, sequence_id = seq, payload_len = 0 \<rparr>,
       payload = replicate MAX_PAYLOAD_SIZE 0 \<rparr>"

definition isValid :: "packet \<Rightarrow> bool" where
  "isValid p \<longleftrightarrow>
     version (header p) = PROTOCOL_VERSION \<and>
     (DISCOVERY \<le> ptype (header p) \<and> ptype (header p) \<le> ACK) \<and>
     unat (payload_len (header p)) \<le> MAX_PAYLOAD_SIZE"

text \<open>
  The idiom that fills a packet: \<open>memcpy(pkt.payload, data, len)\<close> followed by
  \<open>pkt.header.payload_len = len\<close>.
\<close>

definition set_payload :: "packet \<Rightarrow> bytes \<Rightarrow> packet" where
  "set_payload p data =
     p \<lparr> header := (header p) \<lparr> payload_len := of_nat (length data) \<rparr>,
         payload := overwrite (payload p) 0 data \<rparr>"

text \<open>The bytes of the payload that the header declares: \<open>payload[0 .. payload_len)\<close>.\<close>

definition payload_bytes :: "packet \<Rightarrow> bytes" where
  "payload_bytes p = take (unat (payload_len (header p))) (payload p)"

subsection \<open>Object representation\<close>

text \<open>
  \<open>#pragma pack(push, 1)\<close>: the fields follow each other without padding, 21 bytes in
  all.
\<close>

definition header_size :: nat where "header_size = 21"

definition header_bytes :: "packet_header \<Rightarrow> bytes" where
  "header_bytes h =
     [version h, ptype h, ttl h] @ source h @ dest h @
     le_bytes 4 (sequence_id h) @ le_bytes 2 (payload_len h)"

definition header_of_bytes :: "bytes \<Rightarrow> packet_header" where
  "header_of_bytes b =
     \<lparr> version = b ! 0, ptype = b ! 1, ttl = b ! 2,
       source = take 6 (drop 3 b), dest = take 6 (drop 9 b),
       sequence_id = of_le_bytes (take 4 (drop 15 b)),
       payload_len = of_le_bytes (take 2 (drop 19 b)) \<rparr>"

definition packet_size :: nat where "packet_size = header_size + MAX_PAYLOAD_SIZE"

definition packet_bytes :: "packet \<Rightarrow> bytes" where
  "packet_bytes p = header_bytes (header p) @ payload p"

subsection \<open>MAC addresses as text\<close>

definition mac_to_string :: "mac \<Rightarrow> string" where
  "mac_to_string m = concat (map (\<lambda>i. hex2 (m ! i) @ (if i < 5 then '':'' else '''')) [0..<6])"

text \<open>
  The loop of \<open>string_to_mac\<close> with \<open>n\<close> iterations left, at index \<open>i\<close>: a separator
  is read before every byte but the first, and the loop ends at the first extraction that
  fails.
\<close>

fun string_to_mac_loop :: "nat \<Rightarrow> nat \<Rightarrow> string \<Rightarrow> mac \<Rightarrow> mac" where
  "string_to_mac_loop 0 i s out = out"
| "string_to_mac_loop (Suc n) i s out =
     (case (if i > 0 then map_option snd (scan_char s) else Some s) of
        None \<Rightarrow> out
      | Some r \<Rightarrow>
          (case scan_hex_int r of
             None \<Rightarrow> out
           | Some (v, r') \<Rightarrow> string_to_mac_loop n (Suc i) r' (out[i := word_of_int v])))"

definition string_to_mac :: "string \<Rightarrow> mac" where
  "string_to_mac s = string_to_mac_loop 6 0 s (replicate 6 0)"

section \<open>Lemmas\<close>

lemma wf_init [simp]: "length src = 6 \<Longrightarrow> length dst = 6 \<Longrightarrow> wf_packet (init ty src dst seq)"
  by (simp add: wf_packet_def wf_header_def init_def)

lemma header_init [simp]:
  "version (header (init ty src dst seq)) = PROTOCOL_VERSION"
  "ptype (header (init ty src dst seq)) = ty"
  "ttl (header (init ty src dst seq)) = DEFAULT_TTL"
  "source (header (init ty src dst seq)) = src"
  "dest (header (init ty src dst seq)) = dst"
  "sequence_id (header (init ty src dst seq)) = seq"
  "payload_len (header (init ty src dst seq)) = 0"
  "payload (init ty src dst seq) = replicate MAX_PAYLOAD_SIZE 0"
  by (simp_all add: init_def)

lemma header_set_payload [simp]:
  "version (header (set_payload p d)) = version (header p)"
  "ptype (header (set_payload p d)) = ptype (header p)"
  "ttl (header (set_payload p d)) = ttl (header p)"
  "source (header (set_payload p d)) = source (header p)"
  "dest (header (set_payload p d)) = dest (header p)"
  "sequence_id (header (set_payload p d)) = sequence_id (header p)"
  "payload_len (header (set_payload p d)) = of_nat (length d)"
  "payload (set_payload p d) = overwrite (payload p) 0 d"
  by (simp_all add: set_payload_def)

lemma unat_of_nat_u16: "n < 65536 \<Longrightarrow> unat (of_nat n :: u16) = n"
  by (simp add: unat_of_nat take_bit_nat_eq_self)

lemma payload_bytes_set_payload [simp]:
  assumes "length d \<le> MAX_PAYLOAD_SIZE"
  shows "payload_bytes (set_payload p d) = d"
  using assms by (simp add: payload_bytes_def unat_of_nat_u16 MAX_PAYLOAD_SIZE_def)

lemma wf_set_payload [simp]:
  "wf_packet p \<Longrightarrow> length d \<le> MAX_PAYLOAD_SIZE \<Longrightarrow> wf_packet (set_payload p d)"
  by (simp add: wf_packet_def wf_header_def)

lemma length_header_bytes [simp, len_simps]: "wf_header h \<Longrightarrow> length (header_bytes h) = header_size"
  by (simp add: header_bytes_def wf_header_def header_size_def)

lemma length_packet_bytes [simp, len_simps]: "wf_packet p \<Longrightarrow> length (packet_bytes p) = packet_size"
  by (simp add: packet_bytes_def wf_packet_def packet_size_def)

lemma header_of_bytes_append:
  assumes "wf_header h"
  shows "header_of_bytes (header_bytes h @ r) = h"
  using assms
  by (simp add: header_of_bytes_def header_bytes_def wf_header_def)

lemma length_string_to_mac_loop [simp]:
  "length (string_to_mac_loop n i s out) = length out"
  by (induction n i s out rule: string_to_mac_loop.induct) (auto split: option.splits)

lemma length_string_to_mac [simp, len_simps]: "length (string_to_mac s) = 6"
  by (simp add: string_to_mac_def)

lemma mac_cases:
  assumes "length m = 6"
  obtains a b c d e f where "m = [a, b, c, d, e, f :: u8]"
  using assms by (auto simp: numeral_eq_Suc length_Suc_conv)

lemma mac_to_string_eq:
  "mac_to_string [a, b, c, d, e, f] =
    hex2 a @ CHR '':'' # hex2 b @ CHR '':'' # hex2 c @ CHR '':'' # hex2 d @ CHR '':'' #
    hex2 e @ CHR '':'' # hex2 f"
  by (simp add: mac_to_string_def numeral_eq_Suc)

lemma string_to_mac_of_text:
  "string_to_mac (hex2 a @ CHR '':'' # hex2 b @ CHR '':'' # hex2 c @ CHR '':'' # hex2 d @ CHR '':'' #
    hex2 e @ CHR '':'' # hex2 f) = [a, b, c, d, e, f]"
  using scan_hex_int_hex2 [of "[]" f]
  by (simp add: string_to_mac_def numeral_eq_Suc scan_hex_int_hex2)

lemma string_to_mac_mac_to_string [simp]:
  assumes "length m = 6"
  shows "string_to_mac (mac_to_string m) = m"
proof -
  obtain a b c d e f where "m = [a, b, c, d, e, f]"
    using assms by (rule mac_cases)
  then show ?thesis
    by (simp add: mac_to_string_eq string_to_mac_of_text)
qed

lemma mac_to_string_inj:
  "length m = 6 \<Longrightarrow> length m' = 6 \<Longrightarrow> mac_to_string m = mac_to_string m' \<longleftrightarrow> m = m'"
  by (metis string_to_mac_mac_to_string)

lemma length_mac_to_string [simp, len_simps]: "length (mac_to_string m) = 17"
  by (simp add: mac_to_string_def numeral_eq_Suc)

lemma header_bytes_of_bytes:
  assumes "length b = header_size"
  shows "header_bytes (header_of_bytes b) = b"
proof -
  have "length b = 21"
    using assms by (simp add: header_size_def)
  then obtain b0 b1 b2 r where b: "b = b0 # b1 # b2 # r" "length r = 18"
    by (auto simp: numeral_eq_Suc length_Suc_conv)
  have "take 6 r @ take 6 (drop 6 r) @ take 4 (drop 12 r) @ take 2 (drop 16 r) = take (6 + (6 + (4 + 2))) r"
    by (simp only: take_add drop_drop append_assoc) simp
  also have "\<dots> = r"
    using b by simp
  finally show ?thesis
    using b by (simp add: header_bytes_def header_of_bytes_def drop_Cons')
qed

section \<open>Properties\<close>

text \<open>
  C29: Printing a MAC address and parsing the text gives the address back, and distinct
  addresses have distinct texts of 17 characters, so the textual keys of the routing
  table and of the neighbour set identify addresses.
\<close>
theorem mac_text_round_trip:
  assumes "length m = 6" and "length m' = 6"
  shows "string_to_mac (mac_to_string m) = m \<and>
    length (mac_to_string m) = 17 \<and>
    (mac_to_string m = mac_to_string m' \<longleftrightarrow> m = m')"
  using assms by (simp add: mac_to_string_inj)

theorem mac_text_round_trip_witness:
  "string_to_mac (mac_to_string [0x00, 0x1a, 0x2b, 0x3c, 0x4d, 0x5e]) = [0x00, 0x1a, 0x2b, 0x3c, 0x4d, 0x5e]"
  using mac_text_round_trip [of "[0x00, 0x1a, 0x2b, 0x3c, 0x4d, 0x5e]" "replicate 6 0"] by simp

end
