(* ===== verification/Std_Map.thy ===== *)
theory Std_Map
  imports Prelude
begin

text \<open>
  \<open>std::map\<close> as the source uses it: a list of key and value pairs in strictly increasing
  order of the keys, which is the order of iteration.  \<open>m_find\<close> is \<open>find\<close> (and
  \<open>operator[]\<close> on a present key), \<open>m_put\<close> is assignment through \<open>operator[]\<close>,
  \<open>m_erase\<close> is \<open>erase\<close> by key, \<open>m_filter\<close> the erase-while-iterating loop, and
  \<open>size\<close> is \<open>length\<close>.

  The locale \<open>finite_map\<close> is the contract the components rely on: how \<open>find\<close> sees
  the other operations and what the size counts.
\<close>

type_synonym ('k, 'v) std_map = "('k \<times> 'v) list"

definition m_ok :: "('k::linorder, 'v) std_map \<Rightarrow> bool" where
  "m_ok m \<longleftrightarrow> sorted_wrt (<) (map fst m)"

definition m_find :: "('k, 'v) std_map \<Rightarrow> 'k \<Rightarrow> 'v option" where
  "m_find m = map_of m"

definition m_put :: "'k::linorder \<Rightarrow> 'v \<Rightarrow> ('k, 'v) std_map \<Rightarrow> ('k, 'v) std_map" where
  "m_put k v m = filter (\<lambda>p. fst p < k) m @ (k, v) # filter (\<lambda>p. k < fst p) m"

definition m_erase :: "'k \<Rightarrow> ('k, 'v) std_map \<Rightarrow> ('k, 'v) std_map" where
  "m_erase k m = filter (\<lambda>p. fst p \<noteq> k) m"

definition m_filter :: "('v \<Rightarrow> bool) \<Rightarrow> ('k, 'v) std_map \<Rightarrow> ('k, 'v) std_map" where
  "m_filter P m = filter (\<lambda>p. P (snd p)) m"

section \<open>The contract\<close>

locale finite_map =
  fixes lookup :: "'m \<Rightarrow> 'k \<Rightarrow> 'v option"
    and put :: "'k \<Rightarrow> 'v \<Rightarrow> 'm \<Rightarrow> 'm"
    and erase :: "'k \<Rightarrow> 'm \<Rightarrow> 'm"
    and count :: "'m \<Rightarrow> nat"
    and empty :: "'m"
    and invar :: "'m \<Rightarrow> bool"
  assumes invar_empty: "invar empty"
    and invar_put: "invar m \<Longrightarrow> invar (put k v m)"
    and invar_erase: "invar m \<Longrightarrow> invar (erase k m)"
    and lookup_empty: "lookup empty k = None"
    and lookup_put: "invar m \<Longrightarrow> lookup (put k v m) = (lookup m)(k \<mapsto> v)"
    and lookup_erase: "invar m \<Longrightarrow> lookup (erase k m) = (lookup m)(k := None)"
    and finite_dom: "finite (dom (lookup m))"
    and count_card: "invar m \<Longrightarrow> count m = card (dom (lookup m))"
begin

lemma count_put:
  "invar m \<Longrightarrow> count (put k v m) = card (insert k (dom (lookup m)))"
  by (simp add: count_card invar_put lookup_put)

lemma erase_put_same:
  "invar m \<Longrightarrow> lookup (erase k (put k v m)) = (lookup m)(k := None)"
  by (simp add: lookup_erase lookup_put invar_put)

lemma put_other:
  "invar m \<Longrightarrow> k' \<noteq> k \<Longrightarrow> lookup (put k v m) k' = lookup m k'"
  by (simp add: lookup_put)

lemma erase_other:
  "invar m \<Longrightarrow> k' \<noteq> k \<Longrightarrow> lookup (erase k m) k' = lookup m k'"
  by (simp add: lookup_erase)

text \<open>
  A map whose keys are a subset of a finite set is complete exactly when it has as many
  entries as the set.
\<close>

lemma count_complete:
  assumes "invar m" and "dom (lookup m) \<subseteq> K" and "finite K"
  shows "count m = card K \<longleftrightarrow> dom (lookup m) = K"
  using assms by (metis card_subset_eq count_card)

end

section \<open>The ordered lists provide it\<close>

lemma m_ok_distinct: "m_ok m \<Longrightarrow> distinct (map fst m)"
  by (simp add: m_ok_def strict_sorted_iff)

lemma m_ok_Nil [simp]: "m_ok []"
  by (simp add: m_ok_def)

lemma m_ok_filter: "m_ok m \<Longrightarrow> m_ok (filter P m)"
  unfolding m_ok_def by (induction m) auto

lemma m_ok_put: "m_ok m \<Longrightarrow> m_ok (m_put k v m)"
  using m_ok_filter [of m "\<lambda>p. fst p < k"] m_ok_filter [of m "\<lambda>p. k < fst p"]
  by (auto simp: m_ok_def m_put_def sorted_wrt_append)

lemma m_find_filter_key: "map_of (filter (\<lambda>p. P (fst p)) m) k = (if P k then map_of m k else None)"
  by (induction m) auto

lemma m_find_put [simp]: "m_find (m_put k v m) = (m_find m)(k \<mapsto> v)"
proof
  fix x
  have "map_of (filter (\<lambda>p. fst p < k) m) x = (if x < k then map_of m x else None)"
    by (rule m_find_filter_key)
  moreover have "map_of (filter (\<lambda>p. k < fst p) m) x = (if k < x then map_of m x else None)"
    by (rule m_find_filter_key)
  ultimately show "m_find (m_put k v m) x = ((m_find m)(k \<mapsto> v)) x"
    by (auto simp: m_find_def m_put_def map_add_def split: option.split)
qed

lemma m_find_erase [simp]: "m_find (m_erase k m) = (m_find m)(k := None)"
  using m_find_filter_key [of "\<lambda>x. x \<noteq> k" m] by (auto simp: m_find_def m_erase_def fun_eq_iff)

lemma m_find_Nil [simp]: "m_find [] k = None"
  by (simp add: m_find_def)

lemma m_find_filter:
  "distinct (map fst m) \<Longrightarrow>
    m_find (m_filter P m) k = (case m_find m k of Some v \<Rightarrow> if P v then Some v else None | None \<Rightarrow> None)"
proof (induction m)
  case Nil
  show ?case by (simp add: m_filter_def)
next
  case (Cons p m)
  have "map_of (filter (\<lambda>p. P (snd p)) m) (fst p) = None"
    using Cons.prems by (auto simp: map_of_eq_None_iff)
  with Cons show ?case
    by (cases p) (auto simp: m_filter_def m_find_def split: option.splits)
qed

lemma length_eq_card_dom: "distinct (map fst m) \<Longrightarrow> length m = card (dom (m_find m))"
  using distinct_card [of "map fst m"] by (simp add: m_find_def dom_map_of_conv_image_fst)

interpretation std: finite_map m_find m_put m_erase length "[]" m_ok
proof
  fix m :: "('a::linorder, 'b) std_map" and k :: 'a and v :: 'b
  show "m_ok ([] :: ('a, 'b) std_map)" by simp
  show "m_ok m \<Longrightarrow> m_ok (m_put k v m)" by (rule m_ok_put)
  show "m_ok m \<Longrightarrow> m_ok (m_erase k m)" by (simp add: m_erase_def m_ok_filter)
  show "m_find ([] :: ('a, 'b) std_map) k = None" by simp
  show "m_ok m \<Longrightarrow> m_find (m_put k v m) = (m_find m)(k \<mapsto> v)" by simp
  show "m_ok m \<Longrightarrow> m_find (m_erase k m) = (m_find m)(k := None)" by simp
  show "finite (dom (m_find m))" by (simp add: m_find_def finite_dom_map_of)
  show "m_ok m \<Longrightarrow> length m = card (dom (m_find m))" by (simp add: length_eq_card_dom m_ok_distinct)
qed

lemma m_ok_m_filter: "m_ok m \<Longrightarrow> m_ok (m_filter P m)"
  by (simp add: m_filter_def m_ok_filter)

end
