(* ===== verification/Routing.thy ===== *)
theory Routing
  imports Packet Std_Map
begin

text \<open>
  \<open>include/routing.hpp\<close> and \<open>src/routing.cpp\<close>: the routing table, keyed by the text of the
  destination address.  \<open>now\<close> is \<open>std::time(nullptr)\<close> stored in a \<open>uint64_t\<close>.

  The locale \<open>route_store\<close> states what a table that keeps the best route per destination
  promises, over the triple (next hop, hops, time stamp) it reports; the lemmas on whole
  sequences of advertisements are proved in it and hold of the source's table through the
  interpretation \<open>routes\<close>.
\<close>

section \<open>Data and operations\<close>

record route_entry =
  destination :: mac
  next_hop :: mac
  hops :: u8
  last_updated :: u64
  is_valid :: bool

definition new_route_entry :: route_entry where
  "new_route_entry =
     \<lparr> destination = replicate 6 0, next_hop = replicate 6 0, hops = 255, last_updated = 0, is_valid = False \<rparr>"

type_synonym routing_table = "(string, route_entry) std_map"

definition mac_to_key :: "mac \<Rightarrow> string" where
  "mac_to_key m = concat (map (\<lambda>i. hex2 (m ! i) @ (if i < 5 then '':'' else '''')) [0..<6])"

text \<open>\<open>table[key]\<close> creates the entry when it is missing; the reference is then written through.\<close>

definition add_route :: "routing_table \<Rightarrow> mac \<Rightarrow> mac \<Rightarrow> u8 \<Rightarrow> u64 \<Rightarrow> routing_table" where
  "add_route table dst hop h now =
     (let key = mac_to_key dst;
          entry = (case m_find table key of Some e \<Rightarrow> e | None \<Rightarrow> new_route_entry);
          table = m_put key entry table
      in if \<not> is_valid entry \<or> h < hops entry
         then m_put key (entry \<lparr> destination := dst, next_hop := hop, hops := h,
                           last_updated := now, is_valid := True \<rparr>) table
         else table)"

definition get_route :: "routing_table \<Rightarrow> mac \<Rightarrow> route_entry option" where
  "get_route table dst =
     (case m_find table (mac_to_key dst) of
        Some e \<Rightarrow> if is_valid e then Some e else None
      | None \<Rightarrow> None)"

definition is_stale :: "u64 \<Rightarrow> u64 \<Rightarrow> bool" where
  "is_stale timestamp now \<longleftrightarrow> now - timestamp > 30"

definition find_next_hop :: "routing_table \<Rightarrow> mac \<Rightarrow> u64 \<Rightarrow> route_entry option" where
  "find_next_hop table dst now =
     (case m_find table (mac_to_key dst) of
        Some e \<Rightarrow> if is_valid e \<and> \<not> is_stale (last_updated e) now then Some e else None
      | None \<Rightarrow> None)"

text \<open>The text \<open>print_table\<close> writes to standard output.\<close>

definition print_table :: "routing_table \<Rightarrow> string" where
  "print_table table =
     [CHR 0x0A] @ ''=== Routing Table ==='' @ [CHR 0x0A] @
     (if table = [] then ''Table is empty.'' @ [CHR 0x0A]
      else
        concat (map (\<lambda>(key, e). ''Dest: '' @ key @ '' | Next Hop: '' @ mac_to_string (next_hop e) @
          '' | Hops: '' @ show_dec (unat (hops e)) @ [CHR 0x0A]) table) @
        ''====================='' @ [CHR 0x0A, CHR 0x0A])"

section \<open>The contract of a store of best routes\<close>

type_synonym route = "mac \<times> u8 \<times> u64"

record update =
  u_dest :: mac
  u_hop :: mac
  u_hops :: u8
  u_time :: u64

text \<open>Of the route known so far and a new one, the new one only when it is strictly shorter.\<close>

definition better :: "route option \<Rightarrow> route \<Rightarrow> route" where
  "better old new =
     (case old of None \<Rightarrow> new
      | Some r \<Rightarrow> if fst (snd new) < fst (snd r) then new else r)"

definition offer :: "update \<Rightarrow> route" where
  "offer u = (u_hop u, u_hops u, u_time u)"

lemma offer_simps [simp]: "fst (offer u) = u_hop u" "fst (snd (offer u)) = u_hops u" "snd (snd (offer u)) = u_time u"
  by (simp_all add: offer_def)

locale route_store =
  fixes route_to :: "'t \<Rightarrow> mac \<Rightarrow> route option"
    and learn :: "'t \<Rightarrow> mac \<Rightarrow> mac \<Rightarrow> u8 \<Rightarrow> u64 \<Rightarrow> 't"
    and ok :: "'t \<Rightarrow> bool"
  assumes ok_learn: "ok t \<Longrightarrow> length d = 6 \<Longrightarrow> length n = 6 \<Longrightarrow> ok (learn t d n h now)"
    and route_to_learn: "ok t \<Longrightarrow> length d = 6 \<Longrightarrow> length d' = 6 \<Longrightarrow>
      route_to (learn t d n h now) d' =
        (if d' = d then Some (better (route_to t d) (n, h, now)) else route_to t d')"
begin

definition learn_all :: "'t \<Rightarrow> update list \<Rightarrow> 't" where
  "learn_all t us = foldl (\<lambda>t u. learn t (u_dest u) (u_hop u) (u_hops u) (u_time u)) t us"

definition sized :: "update list \<Rightarrow> bool" where
  "sized us \<longleftrightarrow> (\<forall>u \<in> set us. length (u_dest u) = 6 \<and> length (u_hop u) = 6)"

lemma learn_all_simps [simp]:
  "learn_all t [] = t"
  "learn_all t (us @ [u]) = learn (learn_all t us) (u_dest u) (u_hop u) (u_hops u) (u_time u)"
  by (simp_all add: learn_all_def)

lemma sized_snoc [simp]:
  "sized (us @ [u]) \<longleftrightarrow> sized us \<and> length (u_dest u) = 6 \<and> length (u_hop u) = 6"
  by (auto simp: sized_def)

lemma ok_learn_all: "ok t \<Longrightarrow> sized us \<Longrightarrow> ok (learn_all t us)"
  by (induction us rule: rev_induct) (simp_all add: ok_learn)

lemma route_to_snoc:
  assumes "ok t" and "sized us" and "length (u_dest u) = 6" and "length d = 6"
  shows "route_to (learn_all t (us @ [u])) d =
    (if d = u_dest u then Some (better (route_to (learn_all t us) d) (offer u))
     else route_to (learn_all t us) d)"
  using assms by (simp add: route_to_learn ok_learn_all offer_def)

text \<open>
  After any sequence of advertisements the route is one that was offered (or was known
  before), and no offer was shorter.
\<close>

lemma learned_or_known:
  assumes "ok t" and "sized us" and "length d = 6" and "route_to (learn_all t us) d = Some r"
  shows "route_to t d = Some r \<or> (\<exists>u \<in> set us. u_dest u = d \<and> r = offer u)"
  using assms(2,4)
proof (induction us arbitrary: r rule: rev_induct)
  case Nil
  then show ?case by simp
next
  case (snoc u us)
  show ?case
  proof (cases "d = u_dest u \<and> r = offer u")
    case False
    then have "route_to (learn_all t us) d = Some r"
      using snoc.prems route_to_snoc [OF assms(1) _ _ assms(3)]
      by (auto simp: better_def split: if_splits option.splits)
    then show ?thesis
      using snoc by auto
  qed auto
qed

lemma no_offer_shorter:
  assumes "ok t" and "sized us" and "length d = 6" and "u \<in> set us" and "u_dest u = d"
  shows "\<exists>r. route_to (learn_all t us) d = Some r \<and> fst (snd r) \<le> u_hops u"
  using assms(2,4)
proof (induction us rule: rev_induct)
  case Nil
  then show ?case by simp
next
  case (snoc v us)
  have step: "route_to (learn_all t (us @ [v])) d =
      (if d = u_dest v then Some (better (route_to (learn_all t us) d) (offer v))
       else route_to (learn_all t us) d)"
    using snoc.prems assms(1,3) by (intro route_to_snoc) simp_all
  show ?case
  proof (cases "u \<in> set us")
    case True
    then obtain r where "route_to (learn_all t us) d = Some r" "fst (snd r) \<le> u_hops u"
      using snoc by auto
    then show ?thesis
      unfolding step by (auto simp: better_def simp del: split_paired_Ex)
  next
    case False
    then have "u = v" using snoc.prems by simp
    then show ?thesis
      unfolding step using assms(5) by (auto simp: better_def simp del: split_paired_Ex split: option.splits)
  qed
qed

text \<open>Where nothing was known, the route is the first of the shortest offers.\<close>

lemma first_shortest:
  assumes "ok t" and "sized us" and "length d = 6" and "route_to t d = None"
  shows "if \<exists>u \<in> set us. u_dest u = d
    then \<exists>i < length us. u_dest (us ! i) = d \<and> route_to (learn_all t us) d = Some (offer (us ! i)) \<and>
      (\<forall>j < length us. u_dest (us ! j) = d \<longrightarrow> u_hops (us ! i) \<le> u_hops (us ! j) \<and>
         (j < i \<longrightarrow> u_hops (us ! i) < u_hops (us ! j)))
    else route_to (learn_all t us) d = None"
  using assms(2)
proof (induction us rule: rev_induct)
  case Nil
  then show ?case using assms(4) by simp
next
  case (snoc u us)
  have step: "route_to (learn_all t (us @ [u])) d =
      (if d = u_dest u then Some (better (route_to (learn_all t us) d) (offer u))
       else route_to (learn_all t us) d)"
    using snoc.prems assms(1,3) by (intro route_to_snoc) simp_all
  show ?case
  proof (cases "\<exists>v \<in> set us. u_dest v = d")
    case True
    then obtain i where i: "i < length us" "u_dest (us ! i) = d" "route_to (learn_all t us) d = Some (offer (us ! i))"
        "\<forall>j < length us. u_dest (us ! j) = d \<longrightarrow> u_hops (us ! i) \<le> u_hops (us ! j) \<and>
           (j < i \<longrightarrow> u_hops (us ! i) < u_hops (us ! j))"
      using snoc by auto
    let ?k = "if u_dest u = d \<and> u_hops u < u_hops (us ! i) then length us else i"
    have "?k < length (us @ [u]) \<and> u_dest ((us @ [u]) ! ?k) = d \<and>
        route_to (learn_all t (us @ [u])) d = Some (offer ((us @ [u]) ! ?k)) \<and>
        (\<forall>j < length (us @ [u]). u_dest ((us @ [u]) ! j) = d \<longrightarrow> u_hops ((us @ [u]) ! ?k) \<le> u_hops ((us @ [u]) ! j) \<and>
           (j < ?k \<longrightarrow> u_hops ((us @ [u]) ! ?k) < u_hops ((us @ [u]) ! j)))"
      unfolding step using i by (auto simp: better_def nth_append less_Suc_eq)
    then show ?thesis
      using True by auto
  next
    case False
    then show ?thesis
      unfolding step using snoc by (auto simp: better_def nth_append less_Suc_eq)
  qed
qed

text \<open>A route is replaced only by a strictly shorter one: the rest leave it as it is, time stamp included.\<close>

lemma known_stays:
  assumes "ok t" and "sized us" and "length d = 6" and "route_to t d = Some r"
    and "\<forall>u \<in> set us. u_dest u = d \<longrightarrow> fst (snd r) \<le> u_hops u"
  shows "route_to (learn_all t us) d = Some r"
  using assms(2,5)
proof (induction us rule: rev_induct)
  case Nil
  then show ?case using assms(4) by simp
next
  case (snoc u us)
  then have "route_to (learn_all t us) d = Some r" by simp
  then show ?case
    using snoc.prems route_to_snoc [OF assms(1) _ _ assms(3), of us u]
    by (auto simp: better_def)
qed

end

section \<open>The table keeps it\<close>

lemma mac_to_key_eq: "mac_to_key = mac_to_string"
  by (simp add: fun_eq_iff mac_to_key_def mac_to_string_def)

lemma mac_to_key_inj: "length m = 6 \<Longrightarrow> length m' = 6 \<Longrightarrow> mac_to_key m = mac_to_key m' \<longleftrightarrow> m = m'"
  by (simp add: mac_to_key_eq mac_to_string_inj)

text \<open>Every entry is valid, has addresses of six bytes and sits under its destination's key.\<close>

definition table_ok :: "routing_table \<Rightarrow> bool" where
  "table_ok t \<longleftrightarrow> m_ok t \<and>
     (\<forall>k e. m_find t k = Some e \<longrightarrow> is_valid e \<and> k = mac_to_key (destination e) \<and>
        length (destination e) = 6 \<and> length (next_hop e) = 6)"

definition known_route :: "routing_table \<Rightarrow> mac \<Rightarrow> route option" where
  "known_route t d = map_option (\<lambda>e. (next_hop e, hops e, last_updated e)) (get_route t d)"

lemma table_ok_Nil [simp]: "table_ok []"
  by (simp add: table_ok_def)

lemma m_put_put [simp]: "m_put k v (m_put k w t) = m_put k v t"
proof -
  have "\<not> (k < fst x \<and> fst x < k)" for x :: "_ \<times> 'b"
    by auto
  then show ?thesis
    by (simp add: m_put_def conj_commute)
qed

lemma add_route_eq:
  assumes "table_ok t"
  shows "add_route t d n h now =
    (case m_find t (mac_to_key d) of
       Some e \<Rightarrow> if h < hops e
         then m_put (mac_to_key d) (e \<lparr> destination := d, next_hop := n, hops := h, last_updated := now, is_valid := True \<rparr>) t
         else m_put (mac_to_key d) e t
     | None \<Rightarrow> m_put (mac_to_key d) \<lparr> destination = d, next_hop = n, hops = h, last_updated = now, is_valid = True \<rparr> t)"
  using assms
  by (auto simp: add_route_def table_ok_def new_route_entry_def Let_def split: option.splits)

lemma table_ok_add_route:
  assumes "table_ok t" and "length d = 6" and "length n = 6"
  shows "table_ok (add_route t d n h now)"
  using assms unfolding add_route_eq [OF assms(1)]
  by (auto simp: table_ok_def m_ok_put mac_to_key_inj split: option.splits if_splits)

lemma known_route_add_route:
  assumes "table_ok t" and "length d = 6" and "length d' = 6"
  shows "known_route (add_route t d n h now) d' =
    (if d' = d then Some (better (known_route t d) (n, h, now)) else known_route t d')"
  using assms unfolding add_route_eq [OF assms(1)] known_route_def get_route_def
  by (auto simp: better_def table_ok_def mac_to_key_inj split: option.splits)

interpretation routes: route_store known_route add_route table_ok
  by unfold_locales (simp_all add: table_ok_add_route known_route_add_route)

lemma find_next_hop_eq:
  "find_next_hop t d now = (case get_route t d of
     Some e \<Rightarrow> if is_stale (last_updated e) now then None else Some e | None \<Rightarrow> None)"
  by (auto simp: find_next_hop_def get_route_def split: option.splits)

text \<open>A sequence of calls of \<open>add_route\<close>.\<close>

definition learn_routes :: "routing_table \<Rightarrow> update list \<Rightarrow> routing_table" where
  "learn_routes t us = foldl (\<lambda>t u. add_route t (u_dest u) (u_hop u) (u_hops u) (u_time u)) t us"

definition sized_updates :: "update list \<Rightarrow> bool" where
  "sized_updates us \<longleftrightarrow> (\<forall>u \<in> set us. length (u_dest u) = 6 \<and> length (u_hop u) = 6)"

lemma learn_routes_eq: "learn_routes = routes.learn_all"
  by (simp add: fun_eq_iff learn_routes_def routes.learn_all_def)

lemma sized_updates_eq: "sized_updates = routes.sized"
  by (simp add: fun_eq_iff sized_updates_def routes.sized_def)

lemma known_route_Some:
  "known_route t d = Some (n, h, ts) \<longleftrightarrow>
    (\<exists>e. get_route t d = Some e \<and> next_hop e = n \<and> hops e = h \<and> last_updated e = ts)"
  by (auto simp: known_route_def)

section \<open>Properties\<close>

text \<open>
  C21: Starting from an empty table, after any sequence of advertisements the table is
  consistent and the route to a destination is the first of the shortest ones offered for
  it; a destination nobody offered has none.
\<close>
theorem route_is_first_shortest:
  assumes "sized_updates us" and "length d = 6"
  shows "table_ok (learn_routes [] us) \<and>
    (if \<exists>u \<in> set us. u_dest u = d
     then \<exists>i < length us. u_dest (us ! i) = d \<and> known_route (learn_routes [] us) d = Some (offer (us ! i)) \<and>
       (\<forall>j < length us. u_dest (us ! j) = d \<longrightarrow> u_hops (us ! i) \<le> u_hops (us ! j) \<and>
          (j < i \<longrightarrow> u_hops (us ! i) < u_hops (us ! j)))
     else get_route (learn_routes [] us) d = None)"
proof -
  have "known_route [] d = None"
    by (simp add: known_route_def get_route_def)
  moreover have "get_route t d = None \<longleftrightarrow> known_route t d = None" for t
    by (simp add: known_route_def)
  ultimately show ?thesis
    using routes.first_shortest [of "[]" us d] routes.ok_learn_all [of "[]" us] assms
    by (simp add: learn_routes_eq sized_updates_eq)
qed

theorem route_is_first_shortest_witness:
  "\<exists>h ts. known_route (learn_routes []
      [\<lparr> u_dest = replicate 6 9, u_hop = replicate 6 1, u_hops = 3, u_time = 10 \<rparr>,
       \<lparr> u_dest = replicate 6 9, u_hop = replicate 6 2, u_hops = 2, u_time = 11 \<rparr>,
       \<lparr> u_dest = replicate 6 9, u_hop = replicate 6 3, u_hops = 2, u_time = 12 \<rparr>]) (replicate 6 9)
    = Some (replicate 6 2, h, ts)"
proof -
  let ?u = "\<lambda>n h t. \<lparr> u_dest = replicate 6 9, u_hop = replicate 6 n, u_hops = h, u_time = t \<rparr>"
  let ?us = "[?u 1 3 10, ?u 2 2 11, ?u 3 2 12]"
  obtain i where i: "i < length ?us" "known_route (learn_routes [] ?us) (replicate 6 9) = Some (offer (?us ! i))"
      "\<forall>j < length ?us. u_dest (?us ! j) = replicate 6 9 \<longrightarrow> u_hops (?us ! i) \<le> u_hops (?us ! j) \<and>
        (j < i \<longrightarrow> u_hops (?us ! i) < u_hops (?us ! j))"
    using route_is_first_shortest [of ?us "replicate 6 9"] by (auto simp: sized_updates_def split: if_splits)
  have "i = 1"
    using i(1) i(3) [rule_format, of 1] by (auto simp: less_Suc_eq numeral_3_eq_3)
  then show ?thesis
    using i(2) by (simp add: offer_def)
qed

text \<open>
  C22: A route is refreshed only by a strictly shorter one: once a destination is known with
  \<open>h\<close> hops, repeated advertisements of the same or a longer distance leave its time stamp
  as it is, and 30 seconds after the first one \<open>find_next_hop\<close> finds nothing although
  \<open>get_route\<close> still has the route.
\<close>
theorem repeated_route_goes_stale:
  assumes "table_ok t" and "sized_updates us" and "length d = 6"
    and "get_route t d = Some e"
    and "\<forall>u \<in> set us. u_dest u = d \<longrightarrow> hops e \<le> u_hops u"
    and "now - last_updated e > 30"
  shows "find_next_hop (learn_routes t us) d now = None \<and>
    (\<exists>e'. get_route (learn_routes t us) d = Some e' \<and>
      next_hop e' = next_hop e \<and> hops e' = hops e \<and> last_updated e' = last_updated e)"
proof -
  have "known_route t d = Some (next_hop e, hops e, last_updated e)"
    using assms(4) by (simp add: known_route_def)
  then have "known_route (learn_routes t us) d = Some (next_hop e, hops e, last_updated e)"
    using routes.known_stays [of t us d "(next_hop e, hops e, last_updated e)"] assms
    by (simp add: learn_routes_eq sized_updates_eq)
  then show ?thesis
    using assms(6) by (auto simp: known_route_Some find_next_hop_eq is_stale_def)
qed

theorem repeated_route_goes_stale_witness:
  "find_next_hop (learn_routes (add_route [] (replicate 6 9) (replicate 6 9) 1 100)
      [\<lparr> u_dest = replicate 6 9, u_hop = replicate 6 9, u_hops = 1, u_time = 130 \<rparr>]) (replicate 6 9) 131 = None"
proof -
  let ?t = "add_route [] (replicate 6 9) (replicate 6 9) 1 100"
  have ok: "table_ok ?t"
    by (simp add: table_ok_add_route)
  have "known_route [] (replicate 6 9) = None"
    by (simp add: known_route_def get_route_def)
  then have "known_route ?t (replicate 6 9) = Some (replicate 6 9, 1, 100)"
    using known_route_add_route [of "[]" "replicate 6 9" "replicate 6 9" "replicate 6 9" 1 100]
    by (simp add: better_def)
  from iffD1 [OF known_route_Some this] obtain e
    where e: "get_route ?t (replicate 6 9) = Some e" "hops e = 1" "last_updated e = 100"
    by blast
  let ?us = "[\<lparr> u_dest = replicate 6 9, u_hop = replicate 6 9, u_hops = 1, u_time = 130 \<rparr>]"
  have us: "sized_updates ?us" "\<forall>u \<in> set ?us. u_dest u = replicate 6 9 \<longrightarrow> hops e \<le> u_hops u"
      "(131 :: u64) - last_updated e > 30"
    by (simp_all add: e(2,3) sized_updates_def)
  show ?thesis
    by (rule conjunct1 [OF repeated_route_goes_stale [OF ok us(1) length_replicate e(1) us(2,3)]])
qed

text \<open>
  A time stamp is fresh for exactly the 31 clock readings from it on; the unsigned
  subtraction makes every earlier reading, when the clock was set back, stale as well.
\<close>
theorem fresh_for_31_readings:
  "\<not> is_stale timestamp now \<longleftrightarrow> (\<exists>k \<le> 30. now = timestamp + of_nat k)"
proof
  assume "\<not> is_stale timestamp now"
  then have "now = timestamp + of_nat (unat (now - timestamp))" "unat (now - timestamp) \<le> 30"
    by (simp_all add: is_stale_def not_less word_le_nat_alt)
  then show "\<exists>k \<le> 30. now = timestamp + of_nat k" by blast
next
  assume "\<exists>k \<le> 30. now = timestamp + of_nat k"
  then obtain k where k: "k \<le> 30" "now - timestamp = of_nat k" by auto
  then have "unat (now - timestamp) \<le> 30"
    by (simp add: unat_of_nat take_bit_nat_eq_self)
  then show "\<not> is_stale timestamp now"
    by (simp add: is_stale_def not_less word_le_nat_alt)
qed

theorem fresh_for_31_readings_witness:
  "\<not> is_stale 100 130 \<and> is_stale 100 131 \<and> is_stale 100 99"
proof -
  have "\<not> is_stale 100 130"
    using fresh_for_31_readings [of 100 130] by (auto intro!: exI [of _ 30])
  then show ?thesis by (simp add: is_stale_def)
qed

end
