(* ===== verification/Adverts.thy ===== *)
theory Adverts
  imports Routing
begin

text \<open>
  \<open>pack_routes\<close> and \<open>unpack_routes\<close> of \<open>src/araba_node.cpp\<close>: the payload of a
  \<open>ROUTE_ADV\<close> packet is a count and then, per neighbour, the address and one hop.

  A \<open>std::set<std::string>\<close> is the list of its elements in increasing order.  The payload
  buffer of \<open>pack_routes\<close> is an uninitialised array, so its contents are an argument.
  Every \<open>add_route\<close> reads the clock anew: \<open>clock i\<close> is its value at the \<open>i\<close>-th route.
\<close>

type_synonym neighbours = "string list"

fun pack_loop :: "string list \<Rightarrow> nat \<Rightarrow> u8 \<Rightarrow> bytes \<Rightarrow> nat \<Rightarrow> fault + (nat \<times> u8 \<times> bytes)" where
  "pack_loop [] offset count buf max_size = Inr (offset, count, buf)"
| "pack_loop (n # ns) offset count buf max_size =
     (if offset + 7 > max_size then Inr (offset, count, buf)
      else if offset + 7 > length buf then Inl Out_of_bounds
      else
        (let mac = string_to_mac n;
             buf = overwrite buf offset mac;
             buf = buf[offset + 6 := 1]
         in pack_loop ns (offset + 7) (count + 1) buf max_size))"

text \<open>The length returned and the buffer.\<close>

definition pack_routes :: "neighbours \<Rightarrow> bytes \<Rightarrow> nat \<Rightarrow> fault + (nat \<times> bytes)" where
  "pack_routes neighbors buf max_size =
     (case pack_loop neighbors 1 0 buf max_size of
        Inl e \<Rightarrow> Inl e
      | Inr (offset, count, buf') \<Rightarrow>
          if buf' = [] then Inl Out_of_bounds else Inr (offset, buf'[0 := count]))"

text \<open>The loop with \<open>n\<close> iterations left at index \<open>i\<close>.\<close>

fun unpack_loop ::
    "nat \<Rightarrow> nat \<Rightarrow> nat \<Rightarrow> bytes \<Rightarrow> nat \<Rightarrow> mac \<Rightarrow> (nat \<Rightarrow> u64) \<Rightarrow> routing_table \<Rightarrow> fault + routing_table" where
  "unpack_loop 0 i offset buf len via clock table = Inr table"
| "unpack_loop (Suc n) i offset buf len via clock table =
     (if offset + 7 > len then Inr table
      else if offset + 7 > length buf then Inl Out_of_bounds
      else
        (let dst = take 6 (drop offset buf);
             h = buf ! (offset + 6)
         in unpack_loop n (Suc i) (offset + 7) buf len via clock (add_route table dst via (h + 1) (clock i))))"

definition unpack_routes :: "bytes \<Rightarrow> nat \<Rightarrow> mac \<Rightarrow> (nat \<Rightarrow> u64) \<Rightarrow> routing_table \<Rightarrow> fault + routing_table" where
  "unpack_routes buf len via clock table =
     (if len < 1 then Inr table
      else if buf = [] then Inl Out_of_bounds
      else unpack_loop (unat (buf ! 0)) 0 1 buf len via clock table)"

section \<open>The layout\<close>

definition adv_entry :: "string \<Rightarrow> bytes" where
  "adv_entry n = string_to_mac n @ [1]"

lemma length_adv_entry [simp, len_simps]: "length (adv_entry n) = 7"
  by (simp add: adv_entry_def)

lemma overwrite_entry:
  assumes "offset + 7 \<le> length buf"
  shows "(overwrite buf offset (string_to_mac n))[offset + 6 := 1] = overwrite buf offset (adv_entry n)"
proof -
  have "drop (offset + 6) buf = buf ! (offset + 6) # drop (offset + 7) buf"
    using assms Cons_nth_drop_Suc [of "offset + 6" buf] by (simp add: add.commute)
  then show ?thesis
    using assms by (simp add: overwrite_def adv_entry_def list_update_append)
qed

text \<open>How many entries fit behind \<open>offset\<close>.\<close>

definition adv_room :: "nat \<Rightarrow> nat \<Rightarrow> nat" where
  "adv_room offset max_size = (max_size - offset) div 7"

lemma adv_room_step:
  "offset + 7 \<le> max_size \<Longrightarrow> adv_room offset max_size = Suc (adv_room (offset + 7) max_size)"
  "max_size < offset + 7 \<Longrightarrow> adv_room offset max_size = 0"
  by (simp_all add: adv_room_def le_div_geq diff_diff_left)

lemma pack_loop_eq:
  assumes "max_size \<le> length buf"
  shows "pack_loop ns offset count buf max_size =
    (let es = take (adv_room offset max_size) ns
     in Inr (offset + 7 * length es, count + of_nat (length es), overwrite buf offset (concat (map adv_entry es))))"
  using assms
proof (induction ns arbitrary: offset count buf)
  case Nil
  then show ?case by simp
next
  case (Cons n ns)
  show ?case
  proof (cases "offset + 7 > max_size")
    case True
    then show ?thesis
      by (simp add: adv_room_step(2))
  next
    case False
    let ?es = "take (adv_room (offset + 7) max_size) ns"
    have room: "adv_room (offset + 7) max_size \<le> (max_size - (offset + 7)) div 7"
      by (simp add: adv_room_def)
    have "7 * length ?es \<le> max_size - (offset + 7)"
    proof -
      have "length ?es \<le> (max_size - (offset + 7)) div 7"
        using room by simp
      then show ?thesis
        by (metis le_trans mult_le_mono2 times_div_less_eq_dividend)
    qed
    moreover have "length (concat (map adv_entry ?es)) = 7 * length ?es"
      by (simp add: length_concat comp_def sum_list_triv)
    ultimately have "overwrite (overwrite buf offset (adv_entry n)) (offset + 7) (concat (map adv_entry ?es)) =
        overwrite buf offset (adv_entry n @ concat (map adv_entry ?es))"
      using False Cons.prems overwrite_append [of offset "adv_entry n" "concat (map adv_entry ?es)" buf] by simp
    then show ?thesis
      using False Cons.prems Cons.IH [of "overwrite buf offset (adv_entry n)" "offset + 7" "count + 1"]
      by (simp add: Let_def overwrite_entry adv_room_step(1))
  qed
qed

lemma pack_routes_eq:
  assumes "length buf = 512"
  shows "pack_routes ns buf 512 =
    (let es = take 73 ns in Inr (1 + 7 * length es,
      overwrite buf 0 (of_nat (length es) # concat (map adv_entry es))))"
proof -
  let ?es = "take 73 ns"
  have room: "adv_room (Suc 0) 512 = 73"
    by (simp add: adv_room_def)
  have "length (concat (map adv_entry ?es)) = 7 * length ?es"
    by (simp add: length_concat comp_def sum_list_triv)
  then have len: "length (overwrite buf 1 (concat (map adv_entry ?es))) = 512"
    using assms by simp
  obtain b r where "buf = b # r"
    using assms by (cases buf) auto
  then have "(overwrite buf 1 (concat (map adv_entry ?es)))[0 := of_nat (length ?es)] =
      overwrite buf 0 (of_nat (length ?es) # concat (map adv_entry ?es))"
    by (simp add: overwrite_def)
  then show ?thesis
    using len assms by (auto simp: pack_routes_def pack_loop_eq room Let_def)
qed

section \<open>Reading it back\<close>

text \<open>The updates \<open>unpack_routes\<close> makes from the entries of a payload.\<close>

definition adv_updates :: "(mac \<times> u8) list \<Rightarrow> mac \<Rightarrow> (nat \<Rightarrow> u64) \<Rightarrow> nat \<Rightarrow> update list" where
  "adv_updates es via clock i =
     map (\<lambda>(k, d, h). \<lparr> u_dest = d, u_hop = via, u_hops = h + 1, u_time = clock k \<rparr>) (enumerate i es)"

lemma map_enumerate_map: "map f (enumerate i (map g xs)) = map (\<lambda>(k, x). f (k, g x)) (enumerate i xs)"
  by (induction xs arbitrary: i) simp_all

lemma learn_routes_simps [simp]:
  "learn_routes t [] = t"
  "learn_routes t (u # us) = learn_routes (add_route t (u_dest u) (u_hop u) (u_hops u) (u_time u)) us"
  by (simp_all add: learn_routes_def)

lemma unpack_loop_entries:
  assumes "\<forall>(d, h) \<in> set es. length d = 6"
    and "buf = front @ concat (map (\<lambda>(d, h). d @ [h]) es) @ rear" and "length front = offset"
    and "len = offset + 7 * length es"
  shows "unpack_loop (length es) i offset buf len via clock t = Inr (learn_routes t (adv_updates es via clock i))"
  using assms
proof (induction es arbitrary: i offset front t)
  case Nil
  then show ?case by (simp add: adv_updates_def)
next
  case (Cons e es)
  obtain d h where e: "e = (d, h)" "length d = 6"
    using Cons.prems(1) by (cases e) auto
  have pay: "buf = (front @ d @ [h]) @ concat (map (\<lambda>(d, h). d @ [h]) es) @ rear"
    using Cons.prems(2) by (simp add: e)
  have "take 6 (drop offset buf) = d" "buf ! (offset + 6) = h"
    using Cons.prems(3) e(2) by (simp_all add: pay nth_append)
  moreover have "length buf \<ge> offset + 7"
    using Cons.prems(3) e(2) by (simp add: pay)
  moreover have "unpack_loop (length es) (Suc i) (offset + 7) buf len via clock t' =
      Inr (learn_routes t' (adv_updates es via clock (Suc i)))" for t'
    using Cons.prems e by (intro Cons.IH [OF _ pay]) auto
  ultimately show ?case
    using Cons.prems(4) by (simp add: e adv_updates_def Let_def)
qed

text \<open>On any payload the loop stays inside it and makes some sequence of updates through \<open>via\<close>.\<close>

lemma unpack_loop_total:
  assumes "len \<le> length buf" and "length via = 6"
  shows "\<exists>us. unpack_loop n i offset buf len via clock t = Inr (learn_routes t us) \<and> sized_updates us \<and>
    (\<forall>u \<in> set us. u_hop u = via) \<and> length us \<le> n"
proof (induction n arbitrary: i offset t)
  case 0
  have "sized_updates []" by (simp add: sized_updates_def)
  then show ?case by (intro exI [of _ "[]"]) simp
next
  case (Suc n)
  show ?case
  proof (cases "offset + 7 > len")
    case True
    have "sized_updates []" by (simp add: sized_updates_def)
    with True show ?thesis by (intro exI [of _ "[]"]) simp
  next
    case False
    let ?u = "\<lparr> u_dest = take 6 (drop offset buf), u_hop = via, u_hops = buf ! (offset + 6) + 1, u_time = clock i \<rparr>"
    obtain us where us: "unpack_loop n (Suc i) (offset + 7) buf len via clock
        (add_route t (u_dest ?u) (u_hop ?u) (u_hops ?u) (u_time ?u)) =
          Inr (learn_routes (add_route t (u_dest ?u) (u_hop ?u) (u_hops ?u) (u_time ?u)) us)"
        "sized_updates us" "\<forall>u \<in> set us. u_hop u = via" "length us \<le> n"
      using Suc [of "Suc i" "offset + 7" "add_route t (u_dest ?u) (u_hop ?u) (u_hops ?u) (u_time ?u)"] by blast
    have "length (u_dest ?u) = 6"
      using False assms(1) by simp
    then show ?thesis
      using us False assms by (intro exI [of _ "?u # us"]) (simp add: sized_updates_def Let_def)
  qed
qed

lemma unpack_routes_total:
  assumes "len \<le> length buf" and "length via = 6"
  shows "\<exists>us. unpack_routes buf len via clock t = Inr (learn_routes t us) \<and> sized_updates us \<and>
    (\<forall>u \<in> set us. u_hop u = via) \<and> length us \<le> 255"
proof (cases "len < 1")
  case True
  then show ?thesis
    by (intro exI [of _ "[]"]) (simp add: unpack_routes_def sized_updates_def)
next
  case False
  then have "buf \<noteq> []" using assms(1) by auto
  moreover have "unat (buf ! 0) \<le> 255"
    using unat_u8_less [of "buf ! 0"] by linarith
  ultimately show ?thesis
    using False unpack_loop_total [OF assms, of "unat (buf ! 0)" 0 1 clock t]
    by (auto simp: unpack_routes_def intro: le_trans)
qed

lemma table_ok_learn_routes: "table_ok t \<Longrightarrow> sized_updates us \<Longrightarrow> table_ok (learn_routes t us)"
  by (simp add: learn_routes_eq sized_updates_eq routes.ok_learn_all)

text \<open>Whatever stands behind the declared length.\<close>

lemma pack_unpack_tail:
  assumes "length mem = 512" and "pack_routes ns mem 512 = Inr (len, buf)"
  shows "unpack_routes (take len buf @ rear) len via clock t =
    Inr (learn_routes t (adv_updates (map (\<lambda>n. (string_to_mac n, 1)) (take 73 ns)) via clock 0))"
proof -
  let ?es = "take 73 ns" and ?ps = "map (\<lambda>n. (string_to_mac n, 1 :: u8)) (take 73 ns)"
  have conc: "concat (map adv_entry ?es) = concat (map (\<lambda>(d, h). d @ [h]) ?ps)"
    by (simp add: comp_def adv_entry_def [abs_def])
  have buf: "len = 1 + 7 * length ?es"
      "take len buf = [of_nat (length ?es)] @ concat (map (\<lambda>(d, h). d @ [h]) ?ps)"
    using assms(2) unfolding pack_routes_eq [OF assms(1)] conc [symmetric]
    by (auto simp: Let_def overwrite_0 length_concat comp_def sum_list_triv mult.commute)
  let ?buf = "[of_nat (length ?es)] @ concat (map (\<lambda>(d, h). d @ [h]) ?ps) @ rear"
  have "unat (of_nat (length ?es) :: u8) = length ?ps"
    by (simp add: unat_of_nat take_bit_nat_eq_self)
  moreover have "unpack_loop (length ?ps) 0 1 ?buf len via clock t = Inr (learn_routes t (adv_updates ?ps via clock 0))"
    by (rule unpack_loop_entries [where front = "[of_nat (length ?es)]", OF _ refl]) (simp_all add: buf(1))
  ultimately have "unpack_routes ?buf len via clock t = Inr (learn_routes t (adv_updates ?ps via clock 0))"
    by (simp add: unpack_routes_def buf(1))
  then show ?thesis
    by (simp add: buf(2))
qed

lemma pack_unpack:
  assumes "length mem = 512" and "pack_routes ns mem 512 = Inr (len, buf)"
  shows "unpack_routes buf len via clock t =
    Inr (learn_routes t (adv_updates (map (\<lambda>n. (string_to_mac n, 1)) (take 73 ns)) via clock 0))"
  using pack_unpack_tail [OF assms, of "drop len buf"] by simp

section \<open>Properties\<close>

text \<open>
  C23: What one node packs, another unpacks: the payload made from the set of neighbours,
  in a buffer with any contents, makes the receiver learn a route over the sender with two
  hops to each of the first 73 neighbours, in order, and nothing else.
\<close>
theorem advertisement_round_trip:
  assumes "length mem = 512" and "\<forall>m \<in> set ms. length m = 6" and "ns = map mac_to_string ms"
    and "pack_routes ns mem 512 = Inr (len, buf)"
  shows "len = 1 + 7 * min 73 (length ms) \<and> length buf = 512 \<and>
    unpack_routes buf len via clock t = Inr (learn_routes t
      (map (\<lambda>(k, m). \<lparr> u_dest = m, u_hop = via, u_hops = 2, u_time = clock k \<rparr>) (enumerate 0 (take 73 ms))))"
proof -
  have len: "len = 1 + 7 * min 73 (length ms)" and "length buf = 512"
    using assms(1,3,4) unfolding pack_routes_eq [OF assms(1)]
    by (auto simp: Let_def length_concat comp_def sum_list_triv min_def)
  have "map (\<lambda>n. (string_to_mac n, 1 :: u8)) (take 73 ns) = map (\<lambda>m. (m, 1)) (take 73 ms)"
    using assms(2) by (auto simp: assms(3) take_map dest: in_set_takeD)
  then have "adv_updates (map (\<lambda>n. (string_to_mac n, 1)) (take 73 ns)) via clock 0 =
      map (\<lambda>(k, m). \<lparr> u_dest = m, u_hop = via, u_hops = 2, u_time = clock k \<rparr>) (enumerate 0 (take 73 ms))"
    by (simp add: adv_updates_def map_enumerate_map case_prod_unfold)
  then show ?thesis
    using pack_unpack [OF assms(1,4)] len \<open>length buf = 512\<close> by simp
qed

theorem advertisement_round_trip_witness:
  "\<exists>len buf. pack_routes (map mac_to_string [replicate 6 1, replicate 6 2]) (replicate 512 9) 512 = Inr (len, buf) \<and>
    len = 15 \<and> unpack_routes buf len (replicate 6 5) (\<lambda>i. 100) [] = Inr (learn_routes []
      [\<lparr> u_dest = replicate 6 1, u_hop = replicate 6 5, u_hops = 2, u_time = 100 \<rparr>,
       \<lparr> u_dest = replicate 6 2, u_hop = replicate 6 5, u_hops = 2, u_time = 100 \<rparr>])"
proof -
  have mem: "length (replicate 512 (9 :: u8)) = 512"
    by simp
  obtain len buf where p: "pack_routes (map mac_to_string [replicate 6 1, replicate 6 2]) (replicate 512 9) 512 = Inr (len, buf)"
    using pack_routes_eq [OF mem] by (metis (no_types, lifting))
  have "\<forall>m \<in> set [replicate 6 1, replicate 6 (2 :: u8)]. length m = 6"
    by simp
  from advertisement_round_trip [OF mem this refl p, of "replicate 6 5" "\<lambda>i. 100" "[]"] p
  show ?thesis
    by (intro exI [of _ len] exI [of _ buf]) auto
qed

text \<open>
  C24: No advertisement, however malformed, makes \<open>unpack_routes\<close> read outside the payload
  or break the table, and every route it adds goes over the sender.
\<close>
theorem advertisement_is_safe:
  assumes "len \<le> length buf" and "length via = 6" and "table_ok t"
  shows "\<exists>t'. unpack_routes buf len via clock t = Inr t' \<and> table_ok t' \<and>
    (\<forall>d r. length d = 6 \<longrightarrow> known_route t' d = Some r \<longrightarrow> known_route t d = Some r \<or> fst r = via)"
proof -
  obtain us where us: "unpack_routes buf len via clock t = Inr (learn_routes t us)" "sized_updates us"
      "\<forall>u \<in> set us. u_hop u = via"
    using unpack_routes_total [OF assms(1,2)] by blast
  have "known_route t d = Some r \<or> fst r = via" if "length d = 6" "known_route (learn_routes t us) d = Some r" for d r
    using routes.learned_or_known [of t us d r] that us(2,3) assms(3)
    by (auto simp: learn_routes_eq sized_updates_eq)
  then show ?thesis
    using us(1) table_ok_learn_routes [OF assms(3) us(2)] by blast
qed

theorem advertisement_is_safe_witness:
  "\<exists>t'. unpack_routes (replicate 20 255) 20 (replicate 6 5) (\<lambda>i. 100) [] = Inr t' \<and> table_ok t'"
proof -
  have "20 \<le> length (replicate 20 (255 :: u8))" "length (replicate 6 (5 :: u8)) = 6" "table_ok []"
    by simp_all
  then show ?thesis
    using advertisement_is_safe by blast
qed

text \<open>
  The hop count wraps around: an advertisement with 255 hops is entered as a route
  with none, which no later advertisement of the destination can replace.
\<close>
theorem hop_count_wraps:
  assumes "table_ok t" and "length d = 6" and "length via = 6" and "sized_updates us"
    and "known_route t d = None \<or> (\<exists>n h ts. known_route t d = Some (n, h, ts) \<and> 0 < h)"
  shows "\<exists>t'. unpack_routes ([1] @ d @ [255]) 8 via clock t = Inr t' \<and>
    known_route t' d = Some (via, 0, clock 0) \<and>
    known_route (learn_routes t' us) d = Some (via, 0, clock 0)"
proof -
  let ?t = "add_route t d via 0 (clock 0)"
  have "unpack_loop (length [(d, 255 :: u8)]) 0 1 ([1] @ d @ [255]) 8 via clock t =
      Inr (learn_routes t (adv_updates [(d, 255)] via clock 0))"
    using assms(2) by (intro unpack_loop_entries [where front = "[1]" and rear = "[]"]) simp_all
  moreover have "(256 :: u8) = 0" by simp
  ultimately have "unpack_routes ([1] @ d @ [255]) 8 via clock t = Inr ?t"
    by (simp add: unpack_routes_def adv_updates_def del: unpack_loop.simps)
  moreover have known: "known_route ?t d = Some (via, 0, clock 0)"
    using assms by (auto simp: known_route_add_route better_def)
  moreover have "known_route (learn_routes ?t us) d = Some (via, 0, clock 0)"
    using routes.known_stays [of ?t us d "(via, 0, clock 0)"] known assms table_ok_add_route
    by (simp add: learn_routes_eq sized_updates_eq)
  ultimately show ?thesis by blast
qed

theorem hop_count_wraps_witness:
  "\<exists>t'. unpack_routes ([1] @ replicate 6 9 @ [255]) 8 (replicate 6 5) (\<lambda>i. 100) [] = Inr t' \<and>
    known_route t' (replicate 6 9) = Some (replicate 6 5, 0, 100)"
proof -
  have "known_route [] (replicate 6 9) = None" "sized_updates []"
    by (simp_all add: known_route_def get_route_def sized_updates_def)
  then show ?thesis
    using hop_count_wraps [OF table_ok_Nil, of "replicate 6 9" "replicate 6 5" "[]" "\<lambda>i. 100"] by auto
qed

end
