(* ===== verification/Persistence.thy ===== *)
theory Persistence
  imports Packet
begin

text \<open>
  \<open>include/persistence.hpp\<close> and \<open>src/persistence.cpp\<close>: the queue of undelivered messages
  in a \<open>.rue\<close> file.

  The file is a \<open>disk\<close>: its bytes (\<open>None\<close> when it does not exist) and whether it can be
  opened for reading and for writing; an opened file accepts every write.  Local variables
  the source leaves uninitialised are arguments (\<open>junk\<close>), and so is \<open>std::time\<close>.
  Every write of the source is smaller than the buffer of its stream, so what \<open>enqueue\<close>
  appends reaches the file when its stream is destroyed, after the header has been updated
  through a second stream.
\<close>

section \<open>Data\<close>

definition RUE_MAGIC :: bytes where "RUE_MAGIC = [0x52, 0x55, 0x45, 0x00]"
definition RUE_VERSION :: u8 where "RUE_VERSION = 0x01"

record rue_entry =
  dest_mac :: mac
  entry_len :: u16
  entry_payload :: bytes
  timestamp :: u64

definition new_rue_entry :: rue_entry where
  "new_rue_entry =
     \<lparr> dest_mac = replicate 6 0, entry_len = 0, entry_payload = replicate MAX_PAYLOAD_SIZE 0, timestamp = 0 \<rparr>"

record disk =
  content :: "bytes option"
  readable :: bool
  writable :: bool

text \<open>What opening an input stream gives; \<open>None\<close> is a stream that failed to open.\<close>

definition open_in :: "disk \<Rightarrow> bytes option" where
  "open_in d = (if readable d then content d else None)"

text \<open>Writing \<open>data\<close> at offset \<open>off\<close>; a gap past the old end reads as zeros.\<close>

definition write_at :: "nat \<Rightarrow> bytes \<Rightarrow> bytes \<Rightarrow> bytes" where
  "write_at off data c =
     take off (c @ replicate (off - length c) 0) @ data @ drop (off + length data) c"

definition entry_bytes :: "rue_entry \<Rightarrow> bytes" where
  "entry_bytes e = dest_mac e @ le_bytes 2 (entry_len e) @ entry_payload e @ le_bytes 8 (timestamp e)"

definition entry_of_bytes :: "bytes \<Rightarrow> rue_entry" where
  "entry_of_bytes b =
     \<lparr> dest_mac = take 6 b, entry_len = of_le_bytes (take 2 (drop 6 b)),
       entry_payload = take MAX_PAYLOAD_SIZE (drop 8 b),
       timestamp = of_le_bytes (take 8 (drop (8 + MAX_PAYLOAD_SIZE) b)) \<rparr>"

definition entry_size :: nat where "entry_size = 6 + 2 + MAX_PAYLOAD_SIZE + 8"

section \<open>The header\<close>

definition fresh_content :: bytes where
  "fresh_content = RUE_MAGIC @ [RUE_VERSION] @ le_bytes 4 (0 :: u32)"

text \<open>\<open>junk\<close> is \<open>char magic[4]\<close> before the read, which may be short.\<close>

definition ensure_header :: "bytes \<Rightarrow> disk \<Rightarrow> bool \<times> disk" where
  "ensure_header junk d =
     (case open_in d of
        None \<Rightarrow> if \<not> writable d then (False, d)
                else (True, d \<lparr> content := Some fresh_content \<rparr>)
      | Some c \<Rightarrow> (overwrite junk 0 (take 4 c) = RUE_MAGIC, d))"

text \<open>
  \<open>read_header\<close>: the result and the count, of which only the bytes present in the file
  are overwritten.  \<open>junk\<close> is \<open>version\<close> when the file has no fifth byte.
\<close>

definition read_header :: "u8 \<Rightarrow> disk \<Rightarrow> u32 \<Rightarrow> bool \<times> u32" where
  "read_header junk d count =
     (case open_in d of
        None \<Rightarrow> (False, count)
      | Some c \<Rightarrow>
          (let version = (if 4 < length c then c ! 4 else junk)
           in if version \<noteq> RUE_VERSION then (False, count)
              else if length c \<le> 4 then (False, count)
              else (9 \<le> length c, of_le_bytes (overwrite (le_bytes 4 count) 0 (take 4 (drop 5 c))))))"

definition write_header :: "disk \<Rightarrow> u32 \<Rightarrow> bool \<times> disk" where
  "write_header d count =
     (case open_in d of
        None \<Rightarrow> (False, d)
      | Some c \<Rightarrow> if \<not> writable d then (False, d)
                 else (True, d \<lparr> content := Some (write_at 5 (le_bytes 4 count) c) \<rparr>))"

section \<open>Operations\<close>

text \<open>The constructor ignores the verdict of \<open>ensure_header\<close>.\<close>

definition rue_queue :: "bytes \<Rightarrow> disk \<Rightarrow> disk" where
  "rue_queue junk d = snd (ensure_header junk d)"

definition enqueue ::
    "u8 \<Rightarrow> u32 \<Rightarrow> disk \<Rightarrow> mac \<Rightarrow> bytes \<Rightarrow> u16 \<Rightarrow> u64 \<Rightarrow> fault + (bool \<times> disk)" where
  "enqueue junk_version junk_count d dst data len now =
     (let len = (if unat len > MAX_PAYLOAD_SIZE then of_nat MAX_PAYLOAD_SIZE else len)
      in if \<not> writable d then Inr (False, d)
         else if unat len > length data then Inl Out_of_bounds
         else
           (let d = d \<lparr> content := Some (case content d of Some c \<Rightarrow> c | None \<Rightarrow> []) \<rparr>;
                entry = new_rue_entry \<lparr> dest_mac := dst, entry_len := len,
                          entry_payload := overwrite (entry_payload new_rue_entry) 0 (take (unat len) data),
                          timestamp := now \<rparr>;
                (_, count) = read_header junk_version d junk_count;
                (ok, d) = write_header d (count + 1)
            in Inr (ok, d \<lparr> content := map_option (\<lambda>c. c @ entry_bytes entry) (content d) \<rparr>)))"

text \<open>The loop of \<open>get_all\<close>: whole entries until the rest of the file is too short for one.\<close>

function read_entries :: "bytes \<Rightarrow> rue_entry list" where
  "read_entries b =
     (if length b < entry_size then []
      else entry_of_bytes (take entry_size b) # read_entries (drop entry_size b))"
  by pat_completeness auto
termination
  by (relation "measure length") (auto simp: entry_size_def)

declare read_entries.simps [simp del]

definition get_all :: "disk \<Rightarrow> rue_entry list" where
  "get_all d = (case open_in d of None \<Rightarrow> [] | Some c \<Rightarrow> read_entries (drop 9 c))"

text \<open>The loop of \<open>get_pending\<close>, which compares each entry it reads with the destination.\<close>

function read_pending :: "mac \<Rightarrow> bytes \<Rightarrow> rue_entry list" where
  "read_pending dst b =
     (if length b < entry_size then []
      else
        (let entry = entry_of_bytes (take entry_size b)
         in if dest_mac entry = dst then entry # read_pending dst (drop entry_size b)
            else read_pending dst (drop entry_size b)))"
  by pat_completeness auto
termination
  by (relation "measure (\<lambda>(_, b). length b)") (auto simp: entry_size_def)

declare read_pending.simps [simp del]

definition get_pending :: "disk \<Rightarrow> mac \<Rightarrow> rue_entry list" where
  "get_pending d dst = (case open_in d of None \<Rightarrow> [] | Some c \<Rightarrow> read_pending dst (drop 9 c))"

definition same_entry :: "rue_entry \<Rightarrow> rue_entry \<Rightarrow> bool" where
  "same_entry target e \<longleftrightarrow>
     dest_mac e = dest_mac target \<and> timestamp e = timestamp target \<and> entry_len e = entry_len target"

text \<open>The loop of \<open>remove_entry\<close>: \<open>found\<close> and \<open>filtered\<close>.\<close>

fun drop_entry :: "rue_entry \<Rightarrow> bool \<Rightarrow> rue_entry list \<Rightarrow> bool \<times> rue_entry list" where
  "drop_entry target found [] = (found, [])"
| "drop_entry target found (e # es) =
     (if \<not> found \<and> same_entry target e then drop_entry target True es
      else (let (found', es') = drop_entry target found es in (found', e # es')))"

text \<open>
  \<open>remove_entry\<close> reads the file, closes it, and then writes a new one: the two halves are
  separate steps, between which another thread may run.
\<close>

definition remove_scan :: "disk \<Rightarrow> rue_entry \<Rightarrow> bool \<times> rue_entry list" where
  "remove_scan d target = drop_entry target False (get_all d)"

definition remove_rewrite :: "disk \<Rightarrow> bool \<times> rue_entry list \<Rightarrow> bool \<times> disk" where
  "remove_rewrite d r =
     (let (found, filtered) = r
      in if \<not> found then (False, d)
         else if \<not> writable d then (False, d)
         else (True, d \<lparr> content := Some (RUE_MAGIC @ [RUE_VERSION] @
                 le_bytes 4 (of_nat (length filtered) :: u32) @ concat (map entry_bytes filtered)) \<rparr>))"

definition remove_entry :: "disk \<Rightarrow> rue_entry \<Rightarrow> bool \<times> disk" where
  "remove_entry d target = remove_rewrite d (remove_scan d target)"

text \<open>The text \<open>print_status\<close> writes to standard output.\<close>

definition print_status :: "disk \<Rightarrow> string" where
  "print_status d =
     (let all = get_all d
      in [CHR 0x0A] @ ''=== .rue Queue Status ==='' @ [CHR 0x0A] @
         ''Total pending messages: '' @ show_dec (length all) @ [CHR 0x0A] @
         concat (map (\<lambda>e. ''  To: '' @ mac_to_string (dest_mac e) @
           '' | Size: '' @ show_dec (unat (entry_len e)) @
           '' | Time: '' @ show_dec (unat (timestamp e)) @ [CHR 0x0A]) all) @
         ''========================='' @ [CHR 0x0A])"

section \<open>The mailbox it promises\<close>

text \<open>
  Abstractly the queue is a list of entries, oldest first: \<open>put\<close> appends, \<open>remove\<close> takes
  out the first entry with the target's destination, time stamp and length.
\<close>

fun remove_first :: "('e \<Rightarrow> bool) \<Rightarrow> 'e list \<Rightarrow> 'e list" where
  "remove_first P [] = []"
| "remove_first P (e # es) = (if P e then es else e # remove_first P es)"

locale mailbox =
  fixes holds :: "'d \<Rightarrow> 'e list \<Rightarrow> bool"
    and put :: "'d \<Rightarrow> 'e \<Rightarrow> 'd"
    and remove :: "'d \<Rightarrow> 'e \<Rightarrow> bool \<times> 'd"
    and pending :: "'d \<Rightarrow> 'k \<Rightarrow> 'e list"
    and addressee :: "'e \<Rightarrow> 'k"
    and same :: "'e \<Rightarrow> 'e \<Rightarrow> bool"
    and good :: "'e \<Rightarrow> bool"
  assumes holds_put: "holds d es \<Longrightarrow> good e \<Longrightarrow> holds (put d e) (es @ [e])"
    and holds_remove: "holds d es \<Longrightarrow> holds (snd (remove d e)) (remove_first (same e) es)"
    and remove_found: "holds d es \<Longrightarrow> fst (remove d e) \<longleftrightarrow> (\<exists>x \<in> set es. same e x)"
    and pending_eq: "holds d es \<Longrightarrow> pending d k = filter (\<lambda>e. addressee e = k) es"
    and same_refl: "same e e"
    and same_addressee: "same e x \<Longrightarrow> addressee x = addressee e"
begin

definition deliver :: "'d \<Rightarrow> 'e list \<Rightarrow> 'd" where
  "deliver d es = foldl (\<lambda>d e. snd (remove d e)) d es"

lemma deliver_simps [simp]:
  "deliver d [] = d" "deliver d (e # es) = deliver (snd (remove d e)) es"
  by (simp_all add: deliver_def)

lemma remove_first_skip: "\<not> P x \<Longrightarrow> remove_first P (x # xs) = x # remove_first P xs"
  by simp

lemma foldl_remove_first_Cons:
  "\<forall>e \<in> set es. \<not> same e x \<Longrightarrow>
    foldl (\<lambda>xs e. remove_first (same e) xs) (x # xs) es =
    x # foldl (\<lambda>xs e. remove_first (same e) xs) xs es"
  by (induction es arbitrary: xs) auto

lemma remove_all_pending:
  "foldl (\<lambda>xs e. remove_first (same e) xs) es (filter (\<lambda>e. addressee e = k) es) =
    filter (\<lambda>e. addressee e \<noteq> k) es"
proof (induction es)
  case Nil
  show ?case by simp
next
  case (Cons x xs)
  show ?case
  proof (cases "addressee x = k")
    case True
    then show ?thesis by (simp add: same_refl Cons.IH)
  next
    case False
    then have "\<forall>e \<in> set (filter (\<lambda>e. addressee e = k) xs). \<not> same e x"
      using same_addressee by auto
    with False show ?thesis
      by (simp add: foldl_remove_first_Cons Cons.IH)
  qed
qed

lemma holds_deliver:
  "holds d es \<Longrightarrow> holds (deliver d ps) (foldl (\<lambda>xs e. remove_first (same e) xs) es ps)"
  by (induction ps arbitrary: d es) (simp_all add: holds_remove)

text \<open>Removing what is pending for a destination, one by one, leaves the others in order.\<close>

lemma deliver_pending:
  assumes "holds d es"
  shows "holds (deliver d (pending d k)) (filter (\<lambda>e. addressee e \<noteq> k) es)"
  using holds_deliver [OF assms, of "pending d k"] by (simp add: pending_eq [OF assms] remove_all_pending)

lemma nothing_left:
  assumes "holds d es"
  shows "pending (deliver d (pending d k)) k = []"
  using pending_eq [OF deliver_pending [OF assms]] by simp

lemma pending_put:
  assumes "holds d es" and "good e"
  shows "pending (put d e) k = pending d k @ (if addressee e = k then [e] else [])"
  using pending_eq [OF holds_put [OF assms]] pending_eq [OF assms(1)] by simp

end
section \<open>The file keeps it\<close>

definition wf_entry :: "rue_entry \<Rightarrow> bool" where
  "wf_entry e \<longleftrightarrow> length (dest_mac e) = 6 \<and> length (entry_payload e) = MAX_PAYLOAD_SIZE \<and>
     unat (entry_len e) \<le> MAX_PAYLOAD_SIZE"

text \<open>The file that stores \<open>es\<close>, with their number in its header.\<close>

definition rue_content :: "rue_entry list \<Rightarrow> bytes" where
  "rue_content es = RUE_MAGIC @ [RUE_VERSION] @ le_bytes 4 (of_nat (length es) :: u32) @ concat (map entry_bytes es)"

definition stores :: "disk \<Rightarrow> rue_entry list \<Rightarrow> bool" where
  "stores d es \<longleftrightarrow> content d = Some (rue_content es) \<and> readable d \<and> writable d \<and> (\<forall>e \<in> set es. wf_entry e)"

lemma length_entry_bytes [simp, len_simps]:
  "wf_entry e \<Longrightarrow> length (entry_bytes e) = entry_size"
  by (simp add: entry_bytes_def wf_entry_def entry_size_def)

lemma entry_of_bytes_entry_bytes:
  assumes "wf_entry e"
  shows "entry_of_bytes (entry_bytes e) = e"
  using assms by (simp add: entry_of_bytes_def entry_bytes_def wf_entry_def)

lemma read_entries_Nil [simp]: "length b < entry_size \<Longrightarrow> read_entries b = []"
  by (simp add: read_entries.simps)

lemma entry_size_pos [simp]: "0 < entry_size"
  by (simp add: entry_size_def)

lemma read_entries_Cons:
  "wf_entry e \<Longrightarrow> read_entries (entry_bytes e @ r) = e # read_entries r"
  by (subst read_entries.simps) (simp add: entry_of_bytes_entry_bytes)

lemma read_entries_append:
  "\<forall>e \<in> set es. wf_entry e \<Longrightarrow> read_entries (concat (map entry_bytes es) @ r) = es @ read_entries r"
  by (induction es) (simp_all add: read_entries_Cons)

lemma read_pending_eq: "read_pending dst b = filter (\<lambda>e. dest_mac e = dst) (read_entries b)"
proof (induction b rule: read_entries.induct)
  case (1 b)
  show ?case
    using 1 by (subst read_pending.simps, subst read_entries.simps) (simp add: Let_def)
qed

lemma get_pending_eq: "get_pending d dst = filter (\<lambda>e. dest_mac e = dst) (get_all d)"
  by (simp add: get_pending_def get_all_def read_pending_eq split: option.splits)

lemma header_prefix: "RUE_MAGIC @ [RUE_VERSION] @ le_bytes 4 n @ r = (RUE_MAGIC @ [RUE_VERSION] @ le_bytes 4 n) @ r"
  by simp

lemma length_header_prefix: "length (RUE_MAGIC @ [RUE_VERSION] @ le_bytes 4 n) = 9"
  by (simp add: RUE_MAGIC_def)

lemma drop_rue_content: "drop 9 (rue_content es) = concat (map entry_bytes es)"
  unfolding rue_content_def header_prefix by (simp only: drop_append length_header_prefix) (simp add: RUE_MAGIC_def)

lemma stores_get_all:
  assumes "stores d es"
  shows "get_all d = es"
  using assms read_entries_append [of es "[]"]
  by (simp add: stores_def get_all_def open_in_def drop_rue_content)

lemma drop_entry_found: "drop_entry t True es = (True, es)"
  by (induction es) simp_all

lemma drop_entry_eq:
  "drop_entry t False es = (\<exists>e \<in> set es. same_entry t e, remove_first (same_entry t) es)"
  by (induction es) (auto simp: drop_entry_found)

lemma set_remove_first: "set (remove_first P es) \<subseteq> set es"
  by (induction es) auto

lemma remove_first_id: "\<not> (\<exists>e \<in> set es. P e) \<Longrightarrow> remove_first P es = es"
  by (induction es) auto

lemma remove_entry_stores:
  assumes "stores d es"
  shows "remove_entry d t =
    (\<exists>e \<in> set es. same_entry t e, d \<lparr> content := Some (rue_content (remove_first (same_entry t) es)) \<rparr>)"
proof -
  have "d \<lparr> content := Some (rue_content es) \<rparr> = d"
    using assms by (simp add: stores_def)
  then show ?thesis
    using assms
    by (simp add: remove_entry_def remove_scan_def remove_rewrite_def stores_get_all [OF assms] drop_entry_eq
        remove_first_id rue_content_def stores_def)
qed

lemma stores_remove: "stores d es \<Longrightarrow> stores (snd (remove_entry d t)) (remove_first (same_entry t) es)"
  using set_remove_first [of "same_entry t" es] by (auto simp: remove_entry_stores) (auto simp: stores_def)

lemma ensure_header_fresh:
  "content d = None \<Longrightarrow> readable d \<Longrightarrow> writable d \<Longrightarrow> stores (rue_queue junk d) []"
  by (simp add: rue_queue_def ensure_header_def open_in_def stores_def rue_content_def fresh_content_def)

lemma ensure_header_keeps:
  "stores d es \<Longrightarrow> length junk = 4 \<Longrightarrow> ensure_header junk d = (True, d)"
  by (simp add: ensure_header_def stores_def open_in_def rue_content_def RUE_MAGIC_def overwrite_def)

subsection \<open>enqueue\<close>

text \<open>The entry \<open>enqueue\<close> writes.\<close>

definition queued :: "mac \<Rightarrow> bytes \<Rightarrow> u64 \<Rightarrow> rue_entry" where
  "queued dst data now =
     \<lparr> dest_mac = dst, entry_len = of_nat (length data),
       entry_payload = data @ replicate (MAX_PAYLOAD_SIZE - length data) 0, timestamp = now \<rparr>"

lemma wf_queued: "length dst = 6 \<Longrightarrow> length data \<le> MAX_PAYLOAD_SIZE \<Longrightarrow> wf_entry (queued dst data now)"
  by (simp add: wf_entry_def queued_def MAX_PAYLOAD_SIZE_def unat_of_nat_u16)

lemma rue_content_split:
  "rue_content es = (RUE_MAGIC @ [RUE_VERSION]) @ le_bytes 4 (of_nat (length es) :: u32) @ concat (map entry_bytes es)"
  by (simp add: rue_content_def)

lemma write_at_count:
  "write_at 5 (le_bytes 4 n) ((RUE_MAGIC @ [RUE_VERSION]) @ le_bytes 4 m @ r) = (RUE_MAGIC @ [RUE_VERSION]) @ le_bytes 4 n @ r"
  by (simp add: write_at_def RUE_MAGIC_def numeral_eq_Suc)

lemma read_header_stores:
  assumes "stores d es"
  shows "read_header junk d count = (True, of_nat (length es))"
  using assms
  by (simp add: read_header_def stores_def open_in_def rue_content_def RUE_MAGIC_def RUE_VERSION_def
      overwrite_0 Let_def)

lemma enqueue_stores:
  assumes "stores d es" and "unat len \<le> length data" and "unat len \<le> MAX_PAYLOAD_SIZE" and "length dst = 6"
  shows "\<exists>d'. enqueue jv jc d dst data len now = Inr (True, d') \<and>
    stores d' (es @ [queued dst (take (unat len) data) now])"
proof -
  let ?e = "queued dst (take (unat len) data) now"
  have e: "new_rue_entry \<lparr> dest_mac := dst, entry_len := len,
      entry_payload := overwrite (entry_payload new_rue_entry) 0 (take (unat len) data), timestamp := now \<rparr> = ?e"
    using assms(2) by (simp add: new_rue_entry_def queued_def overwrite_0 min_def)
  have d: "content d = Some (rue_content es)" "readable d" "writable d"
    using assms(1) by (simp_all add: stores_def)
  then have same: "d \<lparr> content := Some (rue_content es) \<rparr> = d"
    by simp
  have "stores (d \<lparr> content := Some (rue_content es) \<rparr>) es"
    using assms(1) same by simp
  note hdr = read_header_stores [OF this]
  have "write_at 5 (le_bytes 4 (of_nat (length es) + 1 :: u32)) (rue_content es) @ entry_bytes ?e = rue_content (es @ [?e])"
    unfolding rue_content_split write_at_count by (simp add: add.commute)
  then have "enqueue jv jc d dst data len now = Inr (True, d \<lparr> content := Some (rue_content (es @ [?e])) \<rparr>)"
    using assms d
    by (simp add: enqueue_def e hdr write_header_def open_in_def not_less)
  moreover have "wf_entry ?e"
    using assms(3,4) by (intro wf_queued) simp_all
  ultimately show ?thesis
    using assms(1) by (simp add: stores_def)
qed

subsection \<open>The interpretation\<close>

text \<open>
  \<open>enqueue\<close> called with the parts of an entry, and the entries it can be called with: the
  payload field is zero behind the data.
\<close>

definition enqueue_entry :: "u8 \<Rightarrow> u32 \<Rightarrow> disk \<Rightarrow> rue_entry \<Rightarrow> disk" where
  "enqueue_entry jv jc d e =
     (case enqueue jv jc d (dest_mac e) (entry_payload e) (entry_len e) (timestamp e) of
        Inl _ \<Rightarrow> d | Inr (_, d') \<Rightarrow> d')"

definition clean_entry :: "rue_entry \<Rightarrow> bool" where
  "clean_entry e \<longleftrightarrow> wf_entry e \<and> (\<exists>data. e = queued (dest_mac e) data (timestamp e) \<and> length data \<le> MAX_PAYLOAD_SIZE)"

lemma stores_enqueue_entry:
  assumes "stores d es" and "clean_entry e"
  shows "stores (enqueue_entry jv jc d e) (es @ [e])"
proof -
  obtain data where e: "wf_entry e" "length data \<le> MAX_PAYLOAD_SIZE" "e = queued (dest_mac e) data (timestamp e)"
    using assms(2) by (auto simp: clean_entry_def)
  have len: "entry_len e = of_nat (length data)" "entry_payload e = data @ replicate (MAX_PAYLOAD_SIZE - length data) 0"
    by (subst e(3), simp add: queued_def)+
  have n: "unat (entry_len e) = length data"
    using e(2) by (simp add: len MAX_PAYLOAD_SIZE_def unat_of_nat_u16)
  have "\<exists>d'. enqueue jv jc d (dest_mac e) (entry_payload e) (entry_len e) (timestamp e) = Inr (True, d') \<and>
      stores d' (es @ [queued (dest_mac e) (take (unat (entry_len e)) (entry_payload e)) (timestamp e)])"
    using assms(1) e(1,2) by (intro enqueue_stores) (simp_all add: n, simp_all add: len wf_entry_def)
  moreover have "take (unat (entry_len e)) (entry_payload e) = data"
    by (simp add: n) (simp add: len)
  ultimately show ?thesis
    using e(3) by (auto simp: enqueue_entry_def)
qed

interpretation rue: mailbox stores "enqueue_entry jv jc" remove_entry get_pending dest_mac same_entry clean_entry
  for jv jc
proof
  fix d es e x k
  show "stores d es \<Longrightarrow> clean_entry e \<Longrightarrow> stores (enqueue_entry jv jc d e) (es @ [e])"
    by (rule stores_enqueue_entry)
  show "stores d es \<Longrightarrow> stores (snd (remove_entry d e)) (remove_first (same_entry e) es)"
    by (rule stores_remove)
  show "stores d es \<Longrightarrow> fst (remove_entry d e) \<longleftrightarrow> (\<exists>x \<in> set es. same_entry e x)"
    by (simp add: remove_entry_stores)
  show "stores d es \<Longrightarrow> get_pending d k = filter (\<lambda>e. dest_mac e = k) es"
    by (simp add: get_pending_eq stores_get_all)
  show "same_entry e e"
    by (simp add: same_entry_def)
  show "same_entry e x \<Longrightarrow> dest_mac x = dest_mac e"
    by (simp add: same_entry_def)
qed

text \<open>\<open>remove_entry\<close> for each entry of a list in turn, as the delivery loop calls it.\<close>

definition remove_entries :: "disk \<Rightarrow> rue_entry list \<Rightarrow> disk" where
  "remove_entries d es = foldl (\<lambda>d e. snd (remove_entry d e)) d es"

lemma remove_entries_eq: "remove_entries = rue.deliver"
  by (simp add: fun_eq_iff remove_entries_def rue.deliver_def)

section \<open>Properties\<close>

text \<open>The file of a queue with one message, for the concrete instances below.\<close>

definition one_message :: "bytes \<Rightarrow> disk" where
  "one_message data = \<lparr> content = Some (rue_content [queued (replicate 6 1) data 50]), readable = True, writable = True \<rparr>"

lemma stores_one_message: "length data \<le> MAX_PAYLOAD_SIZE \<Longrightarrow> stores (one_message data) [queued (replicate 6 1) data 50]"
  by (simp add: stores_def one_message_def wf_queued)

text \<open>
  C10: The queue file implements a list of entries: on a file that stores \<open>es\<close>, \<open>get_all\<close>
  returns \<open>es\<close> and \<open>get_pending\<close> the entries for the address, \<open>enqueue\<close> succeeds and
  appends the message, and \<open>remove_entry\<close> takes out the first entry with the same
  destination, time and length and reports whether there was one; the count in the header
  stays the number of entries.
\<close>
theorem queue_file_refines_list:
  assumes "stores d es" and "length dst = 6" and "unat len \<le> length data" and "unat len \<le> MAX_PAYLOAD_SIZE"
  shows "get_all d = es \<and> get_pending d dst = filter (\<lambda>e. dest_mac e = dst) es \<and>
    read_header jv d jc = (True, of_nat (length es)) \<and>
    (\<exists>d'. enqueue jv jc d dst data len now = Inr (True, d') \<and>
       stores d' (es @ [queued dst (take (unat len) data) now])) \<and>
    stores (snd (remove_entry d t)) (remove_first (same_entry t) es) \<and>
    (fst (remove_entry d t) \<longleftrightarrow> (\<exists>e \<in> set es. same_entry t e))"
  using stores_get_all [OF assms(1)] read_header_stores [OF assms(1)]
    enqueue_stores [OF assms(1,3,4,2)] stores_remove [OF assms(1)] rue.remove_found [OF assms(1)]
  by (simp add: get_pending_eq)

theorem queue_file_refines_list_witness:
  "\<exists>d'. enqueue 0 0 (one_message [1, 2]) (replicate 6 2) [7, 8, 9] 3 60 = Inr (True, d') \<and>
    stores d' [queued (replicate 6 1) [1, 2] 50, queued (replicate 6 2) [7, 8, 9] 60]"
  using queue_file_refines_list [OF stores_one_message, of "[1, 2]" "replicate 6 2" 3 "[7, 8, 9]" 0 0 60]
  by (simp add: MAX_PAYLOAD_SIZE_def)

text \<open>
  The delivery loop, which removes one after the other the entries \<open>get_pending\<close>
  returned for an address, empties the queue for it and keeps every other entry in order.
\<close>
theorem delivery_drains_queue:
  assumes "stores d es"
  shows "stores (remove_entries d (get_pending d dst)) (filter (\<lambda>e. dest_mac e \<noteq> dst) es) \<and>
    get_pending (remove_entries d (get_pending d dst)) dst = []"
  using rue.deliver_pending [OF assms] rue.nothing_left [OF assms] by (simp add: remove_entries_eq)

theorem delivery_drains_queue_witness:
  "stores (remove_entries (one_message [1, 2]) (get_pending (one_message [1, 2]) (replicate 6 1))) []"
  using delivery_drains_queue [OF stores_one_message, of "[1, 2]" "replicate 6 1"]
  by (simp add: MAX_PAYLOAD_SIZE_def queued_def)

text \<open>
  A queue file that vanished while the node runs: \<open>enqueue\<close> makes a new one without
  magic and version, its count one more than an uninitialised variable; the message can
  still be read back, but the next start of the node reports the file as corrupted.
\<close>
theorem enqueue_without_file:
  assumes "content d = None" and "readable d" and "writable d"
    and "length dst = 6" and "length data = unat len" and "unat len \<le> MAX_PAYLOAD_SIZE" and "length junk = 4"
  shows "\<exists>d'. enqueue jv jc d dst data len now = Inr (True, d') \<and>
    content d' = Some (replicate 5 0 @ le_bytes 4 (jc + 1) @ entry_bytes (queued dst data now)) \<and>
    get_all d' = [queued dst data now] \<and> \<not> fst (ensure_header junk d')"
proof -
  let ?e = "queued dst data now" and ?d = "d \<lparr> content := Some [] \<rparr>"
  have len: "of_nat (length data) = len"
    using assms(5) by simp
  have e: "new_rue_entry \<lparr> dest_mac := dst, entry_len := len,
      entry_payload := overwrite (entry_payload new_rue_entry) 0 data, timestamp := now \<rparr> = ?e"
    by (simp add: new_rue_entry_def queued_def overwrite_0 len)
  have hdr: "read_header jv ?d jc = (False, jc)"
    using assms(2) by (simp add: read_header_def open_in_def Let_def)
  have wr: "write_at 5 (le_bytes 4 n) [] = replicate 5 0 @ le_bytes 4 n" for n :: u32
    by (simp add: write_at_def)
  let ?c = "replicate 5 0 @ le_bytes 4 (jc + 1) @ entry_bytes ?e"
  let ?d' = "d \<lparr> content := Some ?c \<rparr>"
  have "enqueue jv jc d dst data len now = Inr (True, ?d')"
    using assms(1-3,5,6) by (simp add: enqueue_def e hdr write_header_def open_in_def wr not_less)
  moreover have "get_all ?d' = [?e]"
    using read_entries_Cons [of ?e "[]"] assms(2,4-6)
    by (simp add: get_all_def open_in_def wf_queued drop_append)
  moreover have "replicate 4 (0 :: u8) \<noteq> [0x52, 0x55, 0x45, 0x00]"
    by code_simp
  then have "\<not> fst (ensure_header junk ?d')"
    using assms(2,7) by (simp add: ensure_header_def open_in_def overwrite_def RUE_MAGIC_def)
  ultimately show ?thesis
    by simp
qed

theorem enqueue_without_file_witness:
  "\<exists>d'. enqueue 0 77 \<lparr> content = None, readable = True, writable = True \<rparr> (replicate 6 2) [7, 8, 9] 3 60 = Inr (True, d') \<and>
    get_all d' = [queued (replicate 6 2) [7, 8, 9] 60] \<and> \<not> fst (ensure_header [0, 0, 0, 0] d')"
  using enqueue_without_file [of "\<lparr> content = None, readable = True, writable = True \<rparr>" "replicate 6 2" "[7, 8, 9]" 3
      "[0, 0, 0, 0]" 0 77 60]
  by (auto simp: MAX_PAYLOAD_SIZE_def)

text \<open>
  C40: \<open>remove_entry\<close> is not atomic: a message that the command thread enqueues between its
  reading of the file and its rewriting of it is lost, although \<open>enqueue\<close> reported success.
\<close>
theorem enqueue_during_remove_is_lost:
  assumes "stores d es" and "t \<in> set es"
    and "length dst = 6" and "unat len \<le> length data" and "unat len \<le> MAX_PAYLOAD_SIZE"
  shows "\<exists>d'. enqueue jv jc d dst data len now = Inr (True, d') \<and>
    get_all d' = es @ [queued dst (take (unat len) data) now] \<and>
    get_all (snd (remove_rewrite d' (remove_scan d t))) = remove_first (same_entry t) es"
proof -
  from enqueue_stores [OF assms(1,4,5,3)] obtain d' where
    d': "enqueue jv jc d dst data len now = Inr (True, d')" "stores d' (es @ [queued dst (take (unat len) data) now])"
    by blast
  have found: "\<exists>e \<in> set es. same_entry t e"
    using assms(2) by (auto simp: same_entry_def)
  have "snd (remove_rewrite d' (remove_scan d t)) = d' \<lparr> content := Some (rue_content (remove_first (same_entry t) es)) \<rparr>"
    using found d'(2) by (simp add: remove_rewrite_def remove_scan_def stores_get_all [OF assms(1)] drop_entry_eq
        stores_def rue_content_def)
  moreover have "stores (d' \<lparr> content := Some (rue_content (remove_first (same_entry t) es)) \<rparr>) (remove_first (same_entry t) es)"
    using d'(2) assms(1) set_remove_first [of "same_entry t" es] by (auto simp: stores_def)
  ultimately show ?thesis
    using d' stores_get_all by metis
qed

theorem enqueue_during_remove_is_lost_witness:
  "\<exists>d'. enqueue 0 0 (one_message [1, 2]) (replicate 6 2) [7, 8, 9] 3 60 = Inr (True, d') \<and>
    get_all (snd (remove_rewrite d' (remove_scan (one_message [1, 2]) (queued (replicate 6 1) [1, 2] 50)))) = []"
  using enqueue_during_remove_is_lost [OF stores_one_message, of "[1, 2]" "queued (replicate 6 1) [1, 2] 50"
      "replicate 6 2" 3 "[7, 8, 9]" 0 0 60]
  by (auto simp: MAX_PAYLOAD_SIZE_def same_entry_def)

end
