(* ===== verification/Network.thy ===== *)
theory Network
  imports Packet
begin

text \<open>
  \<open>include/network.hpp\<close> and \<open>src/network.cpp\<close>: the raw socket of the node.

  The kernel is a parameter: what \<open>socket\<close>, \<open>if_nametoindex\<close>, the interface query and
  \<open>recvfrom\<close> return are arguments, and what the node hands to \<open>sendto\<close> is a result.
  The state carries the descriptors the process has open, so that a leak shows.
\<close>

section \<open>Data\<close>

record network_interface =
  sock_fd :: int
  if_index :: int
  local_mac :: mac
  open_fds :: "int set"

text \<open>
  The answers of the kernel while one call of \<open>open\<close> runs: the descriptors of the packet
  socket and of the temporary socket (\<open>-1\<close> on failure), the index of an interface name
  (0 when there is none) and its hardware address (\<open>None\<close> when \<open>ioctl\<close> fails).
\<close>

record kernel =
  packet_socket :: int
  query_socket :: int
  name_index :: "string \<Rightarrow> int"
  hw_address :: "string \<Rightarrow> mac option"

text \<open>A frame handed to \<open>sendto\<close>: the interface, the link-layer address, the bytes, and whether the call succeeded.\<close>

record frame =
  out_index :: int
  out_addr :: mac
  out_bytes :: bytes
  accepted :: bool

definition IFNAMSIZ :: nat where "IFNAMSIZ = 16"
definition ETHERNET_HEADER_SIZE :: nat where "ETHERNET_HEADER_SIZE = 14"
definition RECEIVE_BUFFER :: nat where "RECEIVE_BUFFER = 2048"

section \<open>Opening and closing\<close>

definition new_interface :: "int set \<Rightarrow> network_interface" where
  "new_interface fds = \<lparr> sock_fd = - 1, if_index = 0, local_mac = replicate 6 0, open_fds = fds \<rparr>"

definition is_open :: "network_interface \<Rightarrow> bool" where
  "is_open net \<longleftrightarrow> sock_fd net \<noteq> - 1"

definition close_net :: "network_interface \<Rightarrow> network_interface" where
  "close_net net =
     (if sock_fd net \<noteq> - 1
      then net \<lparr> open_fds := open_fds net - {sock_fd net}, sock_fd := - 1 \<rparr>
      else net)"

text \<open>The query opens and closes a socket of its own on every path past its creation.\<close>

definition fetch_mac_from_interface ::
    "kernel \<Rightarrow> network_interface \<Rightarrow> string \<Rightarrow> bool \<times> network_interface" where
  "fetch_mac_from_interface k net ifname =
     (let ifr_name = take (IFNAMSIZ - 1) ifname;
          temp_sock = query_socket k
      in if temp_sock < 0 then (False, net)
         else
           (let opened = net \<lparr> open_fds := insert temp_sock (open_fds net) \<rparr>;
                closed = opened \<lparr> open_fds := open_fds opened - {temp_sock} \<rparr>
            in case hw_address k ifr_name of
                 None \<Rightarrow> (False, closed)
               | Some m \<Rightarrow> (True, closed \<lparr> local_mac := m \<rparr>)))"

definition open_net :: "kernel \<Rightarrow> network_interface \<Rightarrow> string \<Rightarrow> bool \<times> network_interface" where
  "open_net k net interface_name =
     (let net = (if sock_fd net \<noteq> - 1 then close_net net else net);
          net = net \<lparr> sock_fd := packet_socket k \<rparr>
      in if sock_fd net < 0 then (False, net)
         else
           (let net = net \<lparr> open_fds := insert (sock_fd net) (open_fds net),
                        if_index := name_index k interface_name \<rparr>
            in if if_index net = 0 then (False, close_net net)
               else
                 (let (fetched, net) = fetch_mac_from_interface k net interface_name
                  in if \<not> fetched then (False, close_net net) else (True, net))))"

definition common_interfaces :: "string list" where
  "common_interfaces = [''wlo1'', ''wlan0'', ''wlp2s0'', ''wlx'', ''eth0'']"

definition open_auto :: "kernel \<Rightarrow> network_interface \<Rightarrow> bool \<times> network_interface" where
  "open_auto k net =
     (case filter (\<lambda>iface. name_index k iface \<noteq> 0) common_interfaces of
        iface # _ \<Rightarrow> open_net k net iface
      | [] \<Rightarrow> (False, net))"

definition get_local_mac :: "network_interface \<Rightarrow> mac \<Rightarrow> bool \<times> mac" where
  "get_local_mac net m = (if sock_fd net = - 1 then (False, m) else (True, local_mac net))"

section \<open>Sending and receiving\<close>

text \<open>
  \<open>sent\<close> is the result of \<open>sendto\<close>.  The call gets the whole object \<open>Packet\<close>, whatever
  \<open>payload_len\<close> says, and nothing is put in front of it; nothing leaves the machine when it fails.
\<close>

definition send_packet :: "network_interface \<Rightarrow> packet \<Rightarrow> mac \<Rightarrow> int \<Rightarrow> bool \<times> frame list" where
  "send_packet net p dst sent =
     (if sock_fd net < 0 \<or> if_index net = 0 then (False, [])
      else (\<not> sent < 0, [\<lparr> out_index = if_index net, out_addr = dst, out_bytes = packet_bytes p, accepted = (\<not> sent < 0) \<rparr>]))"

text \<open>
  \<open>receive_packet\<close> on what \<open>recvfrom\<close> delivers: \<open>None\<close> when it fails, else the frame, of
  which the buffer holds the first 2048 bytes.
\<close>

definition receive_packet :: "network_interface \<Rightarrow> packet \<Rightarrow> bytes option \<Rightarrow> bool \<times> packet" where
  "receive_packet net p recv =
     (if sock_fd net < 0 then (False, p)
      else
        (case recv of
           None \<Rightarrow> (False, p)
         | Some fr \<Rightarrow>
             (let buffer = take RECEIVE_BUFFER fr;
                  n = length buffer
              in if n < ETHERNET_HEADER_SIZE + header_size then (False, p)
                 else
                   (let hdr = header_of_bytes (take header_size (drop ETHERNET_HEADER_SIZE buffer));
                        plen = unat (payload_len hdr)
                    in if plen > MAX_PAYLOAD_SIZE
                         then (False, p \<lparr> header := hdr \<lparr> payload_len := 0 \<rparr> \<rparr>)
                       else if plen > 0 \<and> ETHERNET_HEADER_SIZE + header_size + plen \<le> n
                         then (True, p \<lparr> header := hdr,
                                payload := overwrite (payload p) 0
                                  (take plen (drop (ETHERNET_HEADER_SIZE + header_size) buffer)) \<rparr>)
                       else (True, p \<lparr> header := hdr \<rparr>)))))"

section \<open>Descriptors\<close>

text \<open>The descriptor the object owns, and those of the rest of the process.\<close>

definition owned :: "network_interface \<Rightarrow> int set" where
  "owned net = (if sock_fd net = - 1 then {} else {sock_fd net})"

definition net_ok :: "network_interface \<Rightarrow> bool" where
  "net_ok net \<longleftrightarrow> - 1 \<le> sock_fd net \<and> owned net \<subseteq> open_fds net"

text \<open>
  What \<open>socket\<close> guarantees: failure is \<open>-1\<close>, success a descriptor that is not open; the
  two sockets of a call are open at the same time.
\<close>

definition kernel_ok :: "kernel \<Rightarrow> int set \<Rightarrow> bool" where
  "kernel_ok k fds \<longleftrightarrow>
     - 1 \<le> packet_socket k \<and> packet_socket k \<notin> fds \<and> - 1 \<le> query_socket k \<and> query_socket k \<notin> fds \<and>
     (query_socket k = packet_socket k \<longrightarrow> packet_socket k = - 1)"

definition others :: "network_interface \<Rightarrow> int set" where
  "others net = open_fds net - owned net"

lemmas net_defs = owned_def net_ok_def others_def kernel_ok_def is_open_def close_net_def

lemma close_net_ok:
  "net_ok net \<Longrightarrow> net_ok (close_net net) \<and> others (close_net net) = others net \<and> \<not> is_open (close_net net)"
  by (auto simp: net_defs)

lemma fetch_mac_eq:
  assumes "query_socket k \<notin> open_fds net"
  shows "fetch_mac_from_interface k net ifname =
    (if query_socket k < 0 then (False, net)
     else case hw_address k (take 15 ifname) of
       None \<Rightarrow> (False, net) | Some m \<Rightarrow> (True, net \<lparr> local_mac := m \<rparr>))"
proof -
  have "net \<lparr> open_fds := open_fds net - {query_socket k} \<rparr> = net"
    using assms by simp
  then show ?thesis
    using assms by (simp add: fetch_mac_from_interface_def IFNAMSIZ_def Let_def split: option.splits)
qed

lemma local_mac_other [simp]:
  "owned (net \<lparr> local_mac := m \<rparr>) = owned net" "net_ok (net \<lparr> local_mac := m \<rparr>) = net_ok net"
  "others (net \<lparr> local_mac := m \<rparr>) = others net"
  by (simp_all add: owned_def net_ok_def others_def)

text \<open>Whether one call of \<open>open\<close> succeeds.\<close>

definition can_open :: "kernel \<Rightarrow> string \<Rightarrow> bool" where
  "can_open k n \<longleftrightarrow> 0 \<le> packet_socket k \<and> name_index k n \<noteq> 0 \<and> 0 \<le> query_socket k \<and>
     hw_address k (take 15 n) \<noteq> None"

lemma open_net_spec:
  assumes "net_ok net" and "kernel_ok k (others net)" and "open_net k net n = (b, net')"
  shows "net_ok net' \<and> others net' = others net \<and> (b \<longleftrightarrow> can_open k n) \<and>
    (if b then sock_fd net' = packet_socket k \<and> if_index net' = name_index k n \<and>
       hw_address k (take 15 n) = Some (local_mac net') else \<not> is_open net')"
proof -
  define net0 where "net0 = close_net net"
  have net0: "net_ok net0" "open_fds net0 = others net" "sock_fd net0 = - 1"
    using assms(1) by (auto simp: net0_def net_defs)
  define net1 where "net1 = net0 \<lparr> sock_fd := packet_socket k, open_fds := insert (packet_socket k) (others net),
      if_index := name_index k n \<rparr>"
  have start: "(if sock_fd net \<noteq> - 1 then close_net net else net) = net0"
    by (simp add: net0_def close_net_def)
  have pk: "packet_socket k \<notin> others net" "- 1 \<le> packet_socket k" "query_socket k \<notin> others net"
      "query_socket k = packet_socket k \<longrightarrow> packet_socket k = - 1"
    using assms(2) by (auto simp: kernel_ok_def)
  show ?thesis
  proof (cases "0 \<le> packet_socket k")
    case False
    then have "packet_socket k = - 1" using pk by simp
    moreover have "net0 \<lparr> sock_fd := - 1 \<rparr> = net0"
      using net0(3) by (metis network_interface.surjective network_interface.update_convs(1))
    ultimately have "open_net k net n = (False, net0)"
      by (simp add: open_net_def start Let_def)
    then have "\<not> b" "net' = net0"
      using assms(3) by simp_all
    moreover have "others net0 = others net" "\<not> is_open net0" "\<not> can_open k n"
      using net0(2,3) False by (simp_all add: others_def owned_def is_open_def can_open_def)
    ultimately show ?thesis
      using net0(1) by simp
  next
    case True
    then have "query_socket k \<notin> open_fds net1"
      using pk by (auto simp: net1_def)
    note fetch = fetch_mac_eq [OF this]
    have "open_net k net n = (if name_index k n = 0 then (False, close_net net1)
        else let (fetched, net) = fetch_mac_from_interface k net1 n
          in if \<not> fetched then (False, close_net net) else (True, net))"
      using True net0 by (simp add: open_net_def start Let_def net1_def)
    note open_eq = this [unfolded fetch Let_def]
    have ok1: "net_ok net1" "others net1 = others net"
      using True pk(1) by (auto simp: net1_def net_ok_def owned_def others_def)
    then have closed: "net_ok (close_net net1)" "others (close_net net1) = others net" "\<not> is_open (close_net net1)"
      using close_net_ok [of net1] by simp_all
    show ?thesis
    proof (cases "can_open k n")
      case False
      then have "open_net k net n = (False, close_net net1)"
        using True open_eq by (auto simp: can_open_def)
      then show ?thesis
        using assms(3) False closed by simp
    next
      case can: True
      then obtain m where m: "hw_address k (take 15 n) = Some m"
        by (auto simp: can_open_def)
      then have "open_net k net n = (True, net1 \<lparr> local_mac := m \<rparr>)"
        using can open_eq by (simp add: can_open_def)
      then have "b = True" "net' = net1 \<lparr> local_mac := m \<rparr>"
        using assms(3) by simp_all
      moreover have "sock_fd net1 = packet_socket k" "if_index net1 = name_index k n"
        by (simp_all add: net1_def)
      ultimately show ?thesis
        using can m ok1 by simp
    qed
  qed
qed

section \<open>Frames\<close>

text \<open>\<open>receive_packet\<close> on a buffer that holds 14 bytes, a header and the bytes after it.\<close>

lemma receive_packet_frame:
  assumes "0 \<le> sock_fd net" and "take RECEIVE_BUFFER fr = eth @ hb @ pl" and "length eth = 14" and "length hb = 21"
  shows "receive_packet net q (Some fr) =
    (let h = header_of_bytes hb; n = unat (payload_len h)
     in if n > MAX_PAYLOAD_SIZE then (False, q \<lparr> header := h \<lparr> payload_len := 0 \<rparr> \<rparr>)
        else if n > 0 \<and> n \<le> length pl then (True, q \<lparr> header := h, payload := overwrite (payload q) 0 (take n pl) \<rparr>)
        else (True, q \<lparr> header := h \<rparr>))"
proof -
  have parts: "take 21 (drop 14 (eth @ hb @ pl)) = hb" "drop (14 + 21) (eth @ hb @ pl) = pl"
      "length (eth @ hb @ pl) = 35 + length pl"
    using assms(3,4) by simp_all
  show ?thesis
    using assms(1) unfolding receive_packet_def
    by (simp only: assms(2) option.case Let_def ETHERNET_HEADER_SIZE_def header_size_def parts) simp
qed

lemma receive_short_frame:
  "length fr < 35 \<Longrightarrow> receive_packet net q (Some fr) = (False, q)"
  by (simp add: receive_packet_def RECEIVE_BUFFER_def ETHERNET_HEADER_SIZE_def header_size_def)

lemma receive_none: "receive_packet net q None = (False, q)"
  by (simp add: receive_packet_def)

lemma receive_framed:
  assumes "wf_packet p" and "wf_packet q" and "unat (payload_len (header p)) \<le> MAX_PAYLOAD_SIZE"
    and "length eth = 14" and "0 \<le> sock_fd net"
  shows "receive_packet net q (Some (eth @ packet_bytes p)) =
    (True, p \<lparr> payload := overwrite (payload q) 0 (payload_bytes p) \<rparr>)"
proof -
  let ?h = "header_bytes (header p)"
  have h: "length ?h = 21" "wf_header (header p)" "length (payload p) = 512"
    using assms(1) by (simp_all add: wf_packet_def header_size_def MAX_PAYLOAD_SIZE_def)
  have hdr: "header_of_bytes ?h = header p"
    using header_of_bytes_append [OF h(2), of "[]"] by simp
  have "take RECEIVE_BUFFER (eth @ packet_bytes p) = eth @ ?h @ payload p"
    using assms(4) h by (simp add: packet_bytes_def RECEIVE_BUFFER_def)
  note recv = receive_packet_frame [OF assms(5) this assms(4) h(1), of q, unfolded hdr Let_def]
  show ?thesis
    using assms(3) h(3) unfolding recv payload_bytes_def by (simp add: MAX_PAYLOAD_SIZE_def)
qed

text \<open>The frame a receiver that skips 14 bytes sees when no Ethernet header was sent.\<close>

definition misread_header :: "packet \<Rightarrow> packet_header" where
  "misread_header p =
     (let h = header p; d = payload p; seq = sequence_id h
      in \<lparr> version = dest h ! 5, ptype = ucast seq, ttl = ucast (drop_bit 8 seq),
           source = [ucast (drop_bit 16 seq), ucast (drop_bit 24 seq)] @ le_bytes 2 (payload_len h) @ take 2 d,
           dest = take 6 (drop 2 d), sequence_id = of_le_bytes (take 4 (drop 8 d)),
           payload_len = of_le_bytes (take 2 (drop 12 d)) \<rparr>)"

lemma le_bytes_4: "le_bytes 4 (w :: u32) = [ucast w, ucast (drop_bit 8 w), ucast (drop_bit 16 w), ucast (drop_bit 24 w)]"
  by (simp add: numeral_eq_Suc)

lemma misread:
  assumes "wf_packet p"
  shows "\<exists>eth hb pl. packet_bytes p = eth @ hb @ pl \<and> length eth = 14 \<and> length hb = 21 \<and>
    length pl = 498 \<and> header_of_bytes hb = misread_header p"
proof -
  let ?h = "header p" and ?d = "payload p"
  have len: "length (source ?h) = 6" "length (dest ?h) = 6" "length ?d = 512"
    using assms by (simp_all add: wf_packet_def wf_header_def MAX_PAYLOAD_SIZE_def)
  have dst: "dest ?h = take 5 (dest ?h) @ [dest ?h ! 5]"
    using take_Suc_conv_app_nth [of 5 "dest ?h"] len by (simp flip: numeral_eq_Suc)
  let ?eth = "[version ?h, ptype ?h, ttl ?h] @ source ?h @ take 5 (dest ?h)"
  let ?hb = "[dest ?h ! 5] @ le_bytes 4 (sequence_id ?h) @ le_bytes 2 (payload_len ?h) @ take 14 ?d"
  have "packet_bytes p = [version ?h, ptype ?h, ttl ?h] @ source ?h @ (take 5 (dest ?h) @ [dest ?h ! 5]) @
      le_bytes 4 (sequence_id ?h) @ le_bytes 2 (payload_len ?h) @ (take 14 ?d @ drop 14 ?d)"
    unfolding dst [symmetric] by (simp add: packet_bytes_def header_bytes_def)
  then have "packet_bytes p = ?eth @ ?hb @ drop 14 ?d"
    by simp
  moreover have "header_of_bytes ?hb = misread_header p"
    using len by (simp add: header_of_bytes_def misread_header_def le_bytes_4 Let_def take_drop min_def)
  ultimately show ?thesis
    using len by (intro exI [of _ ?eth] exI [of _ ?hb] exI [of _ "drop 14 ?d"]) simp
qed

text \<open>The type of an accepted packet is the second byte behind the Ethernet header.\<close>

lemma received_type:
  assumes "receive_packet n0 q recv = (True, p)"
  shows "\<exists>fr. recv = Some fr \<and> 35 \<le> length fr \<and> ptype (header p) = fr ! 15"
proof -
  obtain fr where fr: "recv = Some fr" "0 \<le> sock_fd n0" "35 \<le> length (take RECEIVE_BUFFER fr)"
    using assms unfolding receive_packet_def Let_def
    by (cases recv) (auto simp: header_size_def ETHERNET_HEADER_SIZE_def not_less simp del: length_take split: if_splits)
  let ?b = "take RECEIVE_BUFFER fr"
  have "take 21 (drop 14 ?b) @ drop 35 ?b = drop 14 ?b"
    using append_take_drop_id [of 21 "drop 14 ?b"] by (simp only: drop_drop) simp
  then have b: "?b = take 14 ?b @ take 21 (drop 14 ?b) @ drop 35 ?b"
    by (simp only: append_take_drop_id)
  have len: "length (take 14 ?b) = 14" "length (take 21 (drop 14 ?b)) = 21"
    using fr(3) by (simp_all only: length_take length_drop)
  have "ptype (header p) = take 21 (drop 14 ?b) ! 1"
    using assms unfolding fr(1) receive_packet_frame [OF fr(2) b len]
    by (auto simp: Let_def header_of_bytes_def split: if_splits)
  also have "\<dots> = fr ! 15"
    using fr(3) by simp
  finally show ?thesis
    using fr(1,3) by auto
qed

lemma receive_total:
  assumes "wf_packet q" and "receive_packet net q recv = (b, p)"
  shows "wf_packet p \<and> (b \<longrightarrow> unat (payload_len (header p)) \<le> MAX_PAYLOAD_SIZE)"
proof (cases "0 \<le> sock_fd net \<and> (\<exists>fr. recv = Some fr \<and> 35 \<le> length fr)")
  case False
  have "receive_packet net q recv = (False, q)"
  proof (cases "0 \<le> sock_fd net")
    case True
    then show ?thesis
      using False receive_short_frame [of _ net q] by (cases recv) (simp_all add: receive_none)
  qed (simp add: receive_packet_def)
  then have "(b, p) = (False, q)"
    using assms(2) by simp
  with assms(1) show ?thesis by simp
next
  case True
  then obtain fr where fr: "recv = Some fr" "35 \<le> length fr" "0 \<le> sock_fd net" by auto
  let ?b = "take RECEIVE_BUFFER fr"
  have "?b = take 14 ?b @ take 21 (drop 14 ?b) @ drop 35 ?b"
    using append_take_drop_id [of 14 ?b] append_take_drop_id [of 21 "drop 14 ?b"] by simp
  moreover have len: "length (take 14 ?b) = 14" "length (take 21 (drop 14 ?b)) = 21"
    using fr(2) by (simp_all add: RECEIVE_BUFFER_def)
  ultimately have eq: "receive_packet net q recv =
      (let h = header_of_bytes (take 21 (drop 14 ?b)); n = unat (payload_len h)
       in if n > MAX_PAYLOAD_SIZE then (False, q \<lparr> header := h \<lparr> payload_len := 0 \<rparr> \<rparr>)
          else if n > 0 \<and> n \<le> length (drop 35 ?b)
            then (True, q \<lparr> header := h, payload := overwrite (payload q) 0 (take n (drop 35 ?b)) \<rparr>)
          else (True, q \<lparr> header := h \<rparr>))"
    unfolding fr(1) by (rule receive_packet_frame [OF fr(3)])
  have "wf_header (header_of_bytes (take 21 (drop 14 ?b)))"
    using len(2) by (simp add: wf_header_def header_of_bytes_def)
  then show ?thesis
    using assms unfolding eq by (auto simp: Let_def wf_packet_def wf_header_def split: if_splits)
qed

section \<open>Histories of calls\<close>

datatype net_call = Open kernel string | Open_auto kernel | Close

fun call_kernel_ok :: "int set \<Rightarrow> net_call \<Rightarrow> bool" where
  "call_kernel_ok fds (Open k n) = kernel_ok k fds"
| "call_kernel_ok fds (Open_auto k) = kernel_ok k fds"
| "call_kernel_ok fds Close = True"

fun net_run :: "network_interface \<Rightarrow> net_call list \<Rightarrow> network_interface" where
  "net_run net [] = net"
| "net_run net (Open k n # cs) = net_run (snd (open_net k net n)) cs"
| "net_run net (Open_auto k # cs) = net_run (snd (open_auto k net)) cs"
| "net_run net (Close # cs) = net_run (close_net net) cs"

lemma open_net_keeps:
  assumes "net_ok net" and "kernel_ok k (others net)"
  shows "net_ok (snd (open_net k net n)) \<and> others (snd (open_net k net n)) = others net"
  using open_net_spec [OF assms, of n "fst (open_net k net n)" "snd (open_net k net n)"] by simp

lemma open_auto_keeps:
  "net_ok net \<Longrightarrow> kernel_ok k (others net) \<Longrightarrow>
    net_ok (snd (open_auto k net)) \<and> others (snd (open_auto k net)) = others net"
  by (auto simp: open_auto_def open_net_keeps split: list.splits)

lemma net_run_keeps:
  "net_ok net \<Longrightarrow> \<forall>c \<in> set cs. call_kernel_ok (others net) c \<Longrightarrow>
    net_ok (net_run net cs) \<and> others (net_run net cs) = others net"
  by (induction net cs rule: net_run.induct) (simp_all add: open_net_keeps open_auto_keeps close_net_ok)

section \<open>Properties\<close>

text \<open>
  C38: No sequence of \<open>open\<close>, \<open>open_auto\<close> and \<open>close\<close>, whatever the kernel answers, leaks
  or double-closes a descriptor: the process has open exactly the descriptors it started
  with and the one the object owns, and after \<open>close\<close> those alone.
\<close>
theorem no_descriptor_leak:
  assumes "- 1 \<notin> fds" and "\<forall>c \<in> set cs. call_kernel_ok fds c"
  shows "open_fds (net_run (new_interface fds) cs) = fds \<union> owned (net_run (new_interface fds) cs) \<and>
    fds \<inter> owned (net_run (new_interface fds) cs) = {} \<and>
    open_fds (close_net (net_run (new_interface fds) cs)) = fds"
proof -
  let ?n = "net_run (new_interface fds) cs"
  have "net_ok (new_interface fds)" "others (new_interface fds) = fds"
    by (simp_all add: new_interface_def net_defs)
  then have n: "net_ok ?n" "others ?n = fds"
    using net_run_keeps [of "new_interface fds" cs] assms(2) by simp_all
  then have "open_fds (close_net ?n) = fds"
    using n(2) by (auto simp: close_net_def others_def owned_def split: if_splits)
  moreover have "owned ?n \<subseteq> open_fds ?n" "open_fds ?n - owned ?n = fds"
    using n by (simp_all add: net_ok_def others_def)
  ultimately show ?thesis
    by blast
qed

theorem no_descriptor_leak_witness:
  "open_fds (close_net (net_run (new_interface {0, 1, 2})
      [Open \<lparr> packet_socket = 3, query_socket = 4, name_index = \<lambda>n. 2, hw_address = \<lambda>n. None \<rparr> ''eth0'',
       Open_auto \<lparr> packet_socket = 3, query_socket = 4, name_index = \<lambda>n. 2, hw_address = \<lambda>n. Some (replicate 6 7) \<rparr>])) = {0, 1, 2}"
  by (rule no_descriptor_leak [THEN conjunct2, THEN conjunct2]) (simp_all add: kernel_ok_def)

text \<open>
  \<open>open\<close> returns true exactly when every kernel call it needs succeeds, and then the
  object holds the new socket, the interface's index and hardware address; otherwise it is
  left closed, also when it was open before.
\<close>
theorem open_reports_success:
  assumes "net_ok net" and "kernel_ok k (others net)" and "open_net k net n = (b, net')"
  shows "(b \<longleftrightarrow> can_open k n) \<and> (b \<longleftrightarrow> is_open net') \<and>
    (b \<longrightarrow> sock_fd net' = packet_socket k \<and> if_index net' = name_index k n \<and>
      get_local_mac net' m = (True, the (hw_address k (take 15 n))))"
  using open_net_spec [OF assms] by (auto simp: is_open_def get_local_mac_def can_open_def split: if_splits)

theorem open_reports_success_witness:
  "is_open (snd (open_net \<lparr> packet_socket = 3, query_socket = 4, name_index = \<lambda>n. 2, hw_address = \<lambda>n. Some (replicate 6 7) \<rparr>
      (new_interface {0, 1, 2}) ''eth0''))"
proof -
  let ?k = "\<lparr> packet_socket = 3, query_socket = 4, name_index = \<lambda>n. 2, hw_address = \<lambda>n. Some (replicate 6 7) \<rparr>"
  have ok: "net_ok (new_interface {0, 1, 2})" "kernel_ok ?k (others (new_interface {0, 1, 2}))"
    by (simp_all add: net_defs new_interface_def)
  have "can_open ?k ''eth0''"
    by (simp add: can_open_def)
  then show ?thesis
    using open_reports_success [OF ok prod.collapse [symmetric], of "''eth0''"] by blast
qed

text \<open>
  C35: A packet behind an Ethernet header of 14 bytes is received as it was sent: header and
  declared payload agree; the bytes of the caller's packet past the declared length stay.
\<close>
theorem framed_packet_received:
  assumes "wf_packet p" and "wf_packet q" and "unat (payload_len (header p)) \<le> MAX_PAYLOAD_SIZE"
    and "send_packet snd_net p dst sent = (b, [fr])" and "length eth = ETHERNET_HEADER_SIZE" and "0 \<le> sock_fd net"
  shows "\<exists>r. receive_packet net q (Some (eth @ out_bytes fr)) = (True, r) \<and> header r = header p \<and>
    payload_bytes r = payload_bytes p \<and>
    drop (unat (payload_len (header p))) (payload r) = drop (unat (payload_len (header p))) (payload q)"
proof -
  have fr: "out_bytes fr = packet_bytes p"
    using assms(4) by (auto simp: send_packet_def split: if_splits)
  have "length (payload_bytes p) = unat (payload_len (header p))"
    using assms(1,3) by (simp add: payload_bytes_def wf_packet_def)
  then show ?thesis
    using receive_framed [OF assms(1-3) _ assms(6), of eth] assms(5)
    by (simp add: fr ETHERNET_HEADER_SIZE_def overwrite_0) (simp add: payload_bytes_def)
qed

theorem framed_packet_received_witness:
  "\<exists>r. receive_packet \<lparr> sock_fd = 3, if_index = 2, local_mac = replicate 6 7, open_fds = {3} \<rparr> (init DATA (replicate 6 3) (replicate 6 4) 9)
      (Some (replicate 14 0 @ packet_bytes (init DISCOVERY (replicate 6 1) (replicate 6 2) 5))) = (True, r) \<and>
    header r = header (init DISCOVERY (replicate 6 1) (replicate 6 2) 5)"
proof -
  let ?net = "\<lparr> sock_fd = 3, if_index = 2, local_mac = replicate 6 7, open_fds = {3} \<rparr>"
  let ?p = "init DISCOVERY (replicate 6 1) (replicate 6 2) 5"
  have send: "send_packet ?net ?p (replicate 6 2) 533 =
      (True, [\<lparr> out_index = 2, out_addr = replicate 6 2, out_bytes = packet_bytes ?p, accepted = True \<rparr>])"
    by (simp add: send_packet_def)
  show ?thesis
    using framed_packet_received [OF _ _ _ send, of "init DATA (replicate 6 3) (replicate 6 4) 9" "replicate 14 0" ?net]
    by (auto simp: ETHERNET_HEADER_SIZE_def)
qed

text \<open>
  C36: \<open>send_packet\<close> puts no Ethernet header in front of the packet, so the receiver, which
  skips 14 bytes, takes the last byte of the destination for the version, the sequence
  number for type, time to live and source address: a frame whose payload bytes 12 and 13
  are zero, as in every \<open>DISCOVERY\<close> packet, is accepted with that header.
\<close>
theorem unframed_packet_misread:
  assumes "wf_packet p" and "wf_packet q" and "send_packet snd_net p dst sent = (b, [fr])" and "0 \<le> sock_fd net"
    and "take 2 (drop 12 (payload p)) = [0, 0]"
  shows "receive_packet net q (Some (out_bytes fr)) = (True, q \<lparr> header := misread_header p \<rparr>) \<and>
    version (misread_header p) = dest (header p) ! 5 \<and> ptype (misread_header p) = ucast (sequence_id (header p)) \<and>
    payload_len (misread_header p) = 0"
proof -
  have fr: "out_bytes fr = packet_bytes p"
    using assms(3) by (auto simp: send_packet_def split: if_splits)
  from misread [OF assms(1)] obtain eth hb pl where m: "packet_bytes p = eth @ hb @ pl" "length eth = 14"
      "length hb = 21" "length pl = 498" "header_of_bytes hb = misread_header p"
    by blast
  have "take RECEIVE_BUFFER (packet_bytes p) = eth @ hb @ pl"
    using m by (simp add: RECEIVE_BUFFER_def)
  note recv = receive_packet_frame [OF assms(4) this m(2,3), of q, unfolded m(5) Let_def]
  have zero: "payload_len (misread_header p) = 0"
    using assms(5) by (simp add: misread_header_def Let_def)
  then show ?thesis
    unfolding fr recv by (simp add: misread_header_def Let_def)
qed

theorem unframed_packet_misread_witness:
  "\<exists>h. receive_packet \<lparr> sock_fd = 3, if_index = 2, local_mac = replicate 6 7, open_fds = {3} \<rparr> (init DATA (replicate 6 3) (replicate 6 4) 9)
      (Some (packet_bytes (init DISCOVERY (replicate 6 1) (replicate 6 255) 4))) = (True, init DATA (replicate 6 3) (replicate 6 4) 9 \<lparr> header := h \<rparr>) \<and>
    version h = 255 \<and> ptype h = ACK"
proof -
  let ?net = "\<lparr> sock_fd = 3, if_index = 2, local_mac = replicate 6 7, open_fds = {3} \<rparr>"
  let ?p = "init DISCOVERY (replicate 6 1) (replicate 6 255) 4"
  have send: "send_packet ?net ?p (replicate 6 255) 533 =
      (True, [\<lparr> out_index = 2, out_addr = replicate 6 255, out_bytes = packet_bytes ?p, accepted = True \<rparr>])"
    by (simp add: send_packet_def)
  have "take 2 (drop 12 (payload ?p)) = [0, 0]"
    by (simp add: MAX_PAYLOAD_SIZE_def numeral_2_eq_2)
  then show ?thesis
    using unframed_packet_misread [OF _ _ send, of "init DATA (replicate 6 3) (replicate 6 4) 9" ?net]
    by (auto simp: ACK_def)
qed

text \<open>
  C37: Whatever arrives, \<open>receive_packet\<close> keeps the caller's packet well formed and accepts
  only a payload length of at most 512; a frame shorter than the length its header
  announces is accepted too, with the payload of an earlier packet.
\<close>
theorem receive_packet_bounds:
  assumes "wf_packet q"
  shows "wf_packet (snd (receive_packet net q recv)) \<and>
    (fst (receive_packet net q recv) \<longrightarrow>
      unat (payload_len (header (snd (receive_packet net q recv)))) \<le> MAX_PAYLOAD_SIZE) \<and>
    (0 \<le> sock_fd net \<and> length eth = 14 \<and> wf_header h \<and> unat (payload_len h) \<le> MAX_PAYLOAD_SIZE \<and>
      length short < unat (payload_len h) \<longrightarrow>
      receive_packet net q (Some (eth @ header_bytes h @ short)) = (True, q \<lparr> header := h \<rparr>))"
proof (intro conjI impI)
  show "wf_packet (snd (receive_packet net q recv))"
    using receive_total [OF assms, of net recv] by (metis prod.collapse)
  assume "fst (receive_packet net q recv)"
  then show "unat (payload_len (header (snd (receive_packet net q recv)))) \<le> MAX_PAYLOAD_SIZE"
    using receive_total [OF assms, of net recv] by (metis prod.collapse)
next
  assume a: "0 \<le> sock_fd net \<and> length eth = 14 \<and> wf_header h \<and> unat (payload_len h) \<le> MAX_PAYLOAD_SIZE \<and>
      length short < unat (payload_len h)"
  then have len: "length (header_bytes h) = 21"
    by (simp add: header_size_def)
  have "take RECEIVE_BUFFER (eth @ header_bytes h @ short) = eth @ header_bytes h @ short"
    using a len by (simp add: RECEIVE_BUFFER_def MAX_PAYLOAD_SIZE_def header_size_def)
  note recv = receive_packet_frame [OF conjunct1 [OF a] this _ len, of q]
  have "header_of_bytes (header_bytes h) = h"
    using header_of_bytes_append [of h "[]"] a by simp
  then show "receive_packet net q (Some (eth @ header_bytes h @ short)) = (True, q \<lparr> header := h \<rparr>)"
    using a recv by (simp add: Let_def)
qed

theorem receive_packet_bounds_witness:
  "receive_packet \<lparr> sock_fd = 3, if_index = 2, local_mac = replicate 6 7, open_fds = {3} \<rparr>
      (set_payload (init DATA (replicate 6 3) (replicate 6 4) 9) [1, 2, 3])
      (Some (replicate 14 0 @ header_bytes ((header (init DATA (replicate 6 1) (replicate 6 2) 5)) \<lparr> payload_len := 3 \<rparr>))) =
    (True, (set_payload (init DATA (replicate 6 3) (replicate 6 4) 9) [1, 2, 3])
      \<lparr> header := (header (init DATA (replicate 6 1) (replicate 6 2) 5)) \<lparr> payload_len := 3 \<rparr> \<rparr>)"
proof -
  let ?q = "set_payload (init DATA (replicate 6 3) (replicate 6 4) 9) [1, 2, 3]"
  let ?h = "(header (init DATA (replicate 6 1) (replicate 6 2) 5)) \<lparr> payload_len := 3 \<rparr>"
  have "wf_packet ?q"
    by (simp add: MAX_PAYLOAD_SIZE_def)
  note bounds = receive_packet_bounds [OF this, THEN conjunct2, THEN conjunct2, rule_format, where short = "[]"]
  show ?thesis
    using bounds [of "\<lparr> sock_fd = 3, if_index = 2, local_mac = replicate 6 7, open_fds = {3} \<rparr>" "replicate 14 0" ?h]
    by (simp add: wf_header_def MAX_PAYLOAD_SIZE_def)
qed

end
