(* ===== verification/Config.thy ===== *)
theory Config
  imports Cxx_Text
begin

text \<open>
  \<open>include/config.hpp\<close> and \<open>src/config.cpp\<close>: the node's configuration file.  A file is its
  text, \<open>None\<close> when it cannot be opened.  An exception of \<open>std::stoul\<close> leaves
  \<open>load_config\<close> and, uncaught, the program.
\<close>

section \<open>Data and operations\<close>

record node_config =
  passphrase :: string
  interface :: string
  log_file :: string
  queue_file :: string
  fragment_timeout_sec :: u32
  discovery_ttl :: u8
  discovery_interval_ms :: u16

text \<open>The default member initialisers.\<close>

definition default_config :: node_config where
  "default_config =
     \<lparr> passphrase = ''ARABA_MESH_SECRET_2026'', interface = '''', log_file = ''araba.log'',
       queue_file = ''pending_messages.rue'', fragment_timeout_sec = 60, discovery_ttl = 64,
       discovery_interval_ms = 1000 \<rparr>"

definition trim :: "string \<Rightarrow> string" where
  "trim s = rev (dropWhile is_space (rev (dropWhile is_space s)))"

text \<open>The chain of comparisons of the key.\<close>

definition set_option :: "string \<Rightarrow> string \<Rightarrow> node_config \<Rightarrow> fault + node_config" where
  "set_option key val c =
     (if key = ''passphrase'' then Inr (c \<lparr> passphrase := val \<rparr>)
      else if key = ''interface'' then Inr (c \<lparr> interface := val \<rparr>)
      else if key = ''log_file'' then Inr (c \<lparr> log_file := val \<rparr>)
      else if key = ''queue_file'' then Inr (c \<lparr> queue_file := val \<rparr>)
      else if key = ''fragment_timeout_sec'' then
        map_sum id (\<lambda>v. c \<lparr> fragment_timeout_sec := ucast v \<rparr>) (stoul val)
      else if key = ''discovery_ttl'' then
        map_sum id (\<lambda>v. c \<lparr> discovery_ttl := ucast v \<rparr>) (stoul val)
      else if key = ''discovery_interval_ms'' then
        map_sum id (\<lambda>v. c \<lparr> discovery_interval_ms := ucast v \<rparr>) (stoul val)
      else Inr c)"

text \<open>The body of the loop for one line.\<close>

definition config_line :: "string \<Rightarrow> node_config \<Rightarrow> fault + node_config" where
  "config_line l c =
     (let line = trim l
      in if line = [] \<or> hd line = CHR ''#'' \<or> hd line = CHR '';'' then Inr c
         else if CHR ''='' \<notin> set line then Inr c
         else
           (let eq = length (takeWhile (\<lambda>c. c \<noteq> CHR ''='') line);
                key = trim (take eq line);
                val = trim (drop (eq + 1) line)
            in set_option key val c))"

fun config_lines :: "string list \<Rightarrow> node_config \<Rightarrow> fault + node_config" where
  "config_lines [] c = Inr c"
| "config_lines (l # ls) c =
     (case config_line l c of Inl e \<Rightarrow> Inl e | Inr c' \<Rightarrow> config_lines ls c')"

definition load_config :: "string option \<Rightarrow> node_config \<Rightarrow> fault + (bool \<times> node_config)" where
  "load_config file config =
     (case file of
        None \<Rightarrow> Inr (False, config)
      | Some text \<Rightarrow> map_sum id (Pair True) (config_lines (lines_of text) config))"

text \<open>What \<open>save_default_config\<close> writes; the dash is three bytes of UTF-8.\<close>

definition save_default_config :: string where
  "save_default_config =
     ''# ARABA Node Configuration'' @ [CHR 0x0A] @
     ''# Generated automatically '' @ [CHR 0xE2, CHR 0x80, CHR 0x94] @ '' edit as needed'' @ [CHR 0x0A, CHR 0x0A] @
     ''passphrase=ARABA_MESH_SECRET_2026'' @ [CHR 0x0A] @
     ''interface='' @ [CHR 0x0A] @
     ''log_file=araba.log'' @ [CHR 0x0A] @
     ''queue_file=pending_messages.rue'' @ [CHR 0x0A] @
     ''fragment_timeout_sec=60'' @ [CHR 0x0A] @
     ''discovery_ttl=64'' @ [CHR 0x0A] @
     ''discovery_interval_ms=1000'' @ [CHR 0x0A]"

section \<open>Lemmas\<close>

text \<open>Texts that \<open>trim\<close> leaves alone.\<close>

definition trimmed :: "string \<Rightarrow> bool" where
  "trimmed s \<longleftrightarrow> s = [] \<or> (\<not> is_space (hd s) \<and> \<not> is_space (last s))"

lemma dropWhile_hd: "s \<noteq> [] \<Longrightarrow> \<not> P (hd s) \<Longrightarrow> dropWhile P s = s"
  by (cases s) auto

lemma trim_trimmed [simp]:
  assumes "trimmed s"
  shows "trim s = s"
proof (cases "s = []")
  case True
  then show ?thesis by (simp add: trim_def)
next
  case False
  then have "\<not> is_space (hd s)" "\<not> is_space (hd (rev s))"
    using assms by (simp_all add: trimmed_def hd_rev)
  then show ?thesis
    using False by (simp add: trim_def dropWhile_hd)
qed

lemma trimmed_trim: "trimmed (trim s)"
proof (cases "trim s = []")
  case False
  define t where "t = dropWhile is_space s"
  have ne: "dropWhile is_space (rev t) \<noteq> []" "t \<noteq> []"
    using False by (auto simp: trim_def t_def dest: set_dropWhileD)
  have "\<not> is_space (last (trim s))"
    using hd_dropWhile [of is_space "rev t"] ne by (simp add: trim_def t_def last_rev dropWhile_eq_Nil_conv)
  moreover have "hd (trim s) = hd t"
  proof -
    have "trim s @ rev (takeWhile is_space (rev t)) = t"
      unfolding trim_def t_def [symmetric] rev_append [symmetric] by simp
    then show ?thesis
      using False by (metis hd_append2)
  qed
  moreover have "\<not> is_space (hd t)"
    using ne(2) unfolding t_def by (intro hd_dropWhile) (auto simp: dropWhile_eq_Nil_conv)
  ultimately show ?thesis
    by (simp add: trimmed_def)
qed (simp add: trimmed_def)

lemma trim_idem [simp]: "trim (trim s) = trim s"
  by (simp add: trimmed_trim)

lemma config_line_option:
  assumes "trimmed key" and "key \<noteq> []" and "CHR ''='' \<notin> set key" and "trimmed val"
    and "hd key \<noteq> CHR ''#''" and "hd key \<noteq> CHR '';''"
  shows "config_line (key @ CHR ''='' # val) c = set_option key val c"
proof -
  have "trimmed (key @ CHR ''='' # val)"
    using assms by (auto simp: trimmed_def is_space_def)
  moreover have "takeWhile (\<lambda>c. c \<noteq> CHR ''='') (key @ CHR ''='' # val) = key"
    using assms(3) by (auto simp: takeWhile_append)
  ultimately show ?thesis
    using assms by (simp add: config_line_def Let_def)
qed

lemma config_line_blank: "trim l = [] \<or> hd (trim l) = CHR ''#'' \<or> hd (trim l) = CHR '';'' \<Longrightarrow> config_line l c = Inr c"
  by (auto simp: config_line_def Let_def)

lemma config_lines_append:
  "config_lines (ls @ ls') c = (case config_lines ls c of Inl e \<Rightarrow> Inl e | Inr c' \<Rightarrow> config_lines ls' c')"
  by (induction ls arbitrary: c) (auto split: sum.splits)

text \<open>The file that spells out a configuration.\<close>

definition config_text :: "node_config \<Rightarrow> string" where
  "config_text c = concat (map (\<lambda>l. l @ [CHR 0x0A])
     [''passphrase='' @ passphrase c, ''interface='' @ interface c, ''log_file='' @ log_file c,
      ''queue_file='' @ queue_file c, ''fragment_timeout_sec='' @ show_dec (unat (fragment_timeout_sec c)),
      ''discovery_ttl='' @ show_dec (unat (discovery_ttl c)),
      ''discovery_interval_ms='' @ show_dec (unat (discovery_interval_ms c))])"

definition plain_text :: "string \<Rightarrow> bool" where
  "plain_text s \<longleftrightarrow> trimmed s \<and> CHR 0x0A \<notin> set s"

lemma plain_show_dec [simp]: "plain_text (show_dec n)"
proof -
  have "\<not> is_space c" if "c \<in> set (show_dec n)" for c
    using that show_dec_dec is_dec_not_space by blast
  moreover have "is_space (CHR 0x0A)"
    by (simp add: is_space_def)
  ultimately show ?thesis
    by (auto simp: plain_text_def trimmed_def)
qed

lemma set_option_simps [simp]:
  "set_option ''passphrase'' v c = Inr (c \<lparr> passphrase := v \<rparr>)"
  "set_option ''interface'' v c = Inr (c \<lparr> interface := v \<rparr>)"
  "set_option ''log_file'' v c = Inr (c \<lparr> log_file := v \<rparr>)"
  "set_option ''queue_file'' v c = Inr (c \<lparr> queue_file := v \<rparr>)"
  "set_option ''fragment_timeout_sec'' v c = map_sum id (\<lambda>v. c \<lparr> fragment_timeout_sec := ucast v \<rparr>) (stoul v)"
  "set_option ''discovery_ttl'' v c = map_sum id (\<lambda>v. c \<lparr> discovery_ttl := ucast v \<rparr>) (stoul v)"
  "set_option ''discovery_interval_ms'' v c = map_sum id (\<lambda>v. c \<lparr> discovery_interval_ms := ucast v \<rparr>) (stoul v)"
  by (simp_all add: set_option_def)

definition option_keys :: "string list" where
  "option_keys = [''passphrase'', ''interface'', ''log_file'', ''queue_file'', ''fragment_timeout_sec'',
     ''discovery_ttl'', ''discovery_interval_ms'']"

lemma config_line_key:
  assumes "key \<in> set option_keys" and "trimmed val"
  shows "config_line (key @ ''='' @ val) c = set_option key val c"
proof -
  have "trimmed key \<and> key \<noteq> [] \<and> CHR ''='' \<notin> set key \<and> hd key \<noteq> CHR ''#'' \<and> hd key \<noteq> CHR '';''"
    using assms(1) by (auto simp: option_keys_def trimmed_def is_space_def)
  then show ?thesis
    using config_line_option [of key val c] assms(2) by simp
qed

lemma lines_of_append:
  "body = [] \<or> last body = CHR 0x0A \<Longrightarrow> lines_of (body @ r) = lines_of body @ lines_of r"
proof (induction body rule: lines_of.induct)
  case (2 ch body)
  show ?case
  proof (cases "body = []")
    case False
    then have IH: "lines_of (body @ r) = lines_of body @ lines_of r"
      using 2 by auto
    have "lines_of body \<noteq> []"
      using False by (cases body) (auto split: list.splits)
    then show ?thesis
      by (auto simp: IH split: list.splits)
  qed (use 2 in auto)
qed simp

lemma lines_of_single: "l \<noteq> [] \<Longrightarrow> CHR 0x0A \<notin> set l \<Longrightarrow> lines_of l = [l]"
proof (induction l)
  case (Cons a l)
  then show ?case by (cases "l = []") auto
qed simp

lemma config_line_keys:
  assumes "trimmed v"
  shows "config_line (''passphrase='' @ v) x = set_option ''passphrase'' v x"
    "config_line (''interface='' @ v) x = set_option ''interface'' v x"
    "config_line (''log_file='' @ v) x = set_option ''log_file'' v x"
    "config_line (''queue_file='' @ v) x = set_option ''queue_file'' v x"
    "config_line (''fragment_timeout_sec='' @ v) x = set_option ''fragment_timeout_sec'' v x"
    "config_line (''discovery_ttl='' @ v) x = set_option ''discovery_ttl'' v x"
    "config_line (''discovery_interval_ms='' @ v) x = set_option ''discovery_interval_ms'' v x"
  using assms config_line_key [of "''passphrase''" v x] config_line_key [of "''interface''" v x]
    config_line_key [of "''log_file''" v x] config_line_key [of "''queue_file''" v x]
    config_line_key [of "''fragment_timeout_sec''" v x] config_line_key [of "''discovery_ttl''" v x]
    config_line_key [of "''discovery_interval_ms''" v x]
  by (simp_all add: option_keys_def)

text \<open>The two comment lines and the blank line of the default file.\<close>

lemma default_comments:
  "config_line ''# ARABA Node Configuration'' c = Inr c"
  "config_line (''# Generated automatically '' @ [CHR 0xE2, CHR 0x80, CHR 0x94] @ '' edit as needed'') c = Inr c"
  "config_line [] c = Inr c"
  by (rule config_line_blank, simp add: trim_def is_space_def)+

lemma lines_of_default:
  "lines_of save_default_config =
    [''# ARABA Node Configuration'',
     ''# Generated automatically '' @ [CHR 0xE2, CHR 0x80, CHR 0x94] @ '' edit as needed'', [],
     ''passphrase='' @ passphrase default_config, ''interface='' @ interface default_config,
     ''log_file='' @ log_file default_config, ''queue_file='' @ queue_file default_config,
     ''fragment_timeout_sec='' @ ''60'', ''discovery_ttl='' @ ''64'', ''discovery_interval_ms='' @ ''1000'']"
  (is "_ = ?ls")
proof -
  have eq: "concat (map (\<lambda>l. l @ [CHR 0x0A]) ?ls) = save_default_config"
    by (simp add: save_default_config_def default_config_def)
  have "\<forall>l \<in> set ?ls. CHR 0x0A \<notin> set l"
    by (simp add: default_config_def)
  then have "lines_of (concat (map (\<lambda>l. l @ [CHR 0x0A]) ?ls)) = ?ls"
    by (rule lines_of_unlines)
  then show ?thesis
    by (simp only: eq)
qed

lemma default_numbers: "stoul ''60'' = Inr 60" "stoul ''64'' = Inr 64" "stoul ''1000'' = Inr 1000"
  by (simp_all add: stoul_def skip_ws_def is_space_def scan_sign_def is_dec_def digits_value_def digit_value_def)

lemma widen_narrow:
  "ucast (ucast (a :: u32) :: u64) = a" "ucast (ucast (b :: u8) :: u64) = b" "ucast (ucast (c :: u16) :: u64) = c"
  by (rule bit_word_eqI, simp add: bit_simps)+

lemma load_default:
  "load_config (Some save_default_config) c = Inr (True, default_config)"
proof -
  have "plain_text (passphrase default_config) \<and> plain_text (interface default_config) \<and>
      plain_text (log_file default_config) \<and> plain_text (queue_file default_config) \<and>
      trimmed ''60'' \<and> trimmed ''64'' \<and> trimmed ''1000''"
    by (simp add: default_config_def plain_text_def trimmed_def is_space_def)
  then have "config_lines (lines_of save_default_config) c = Inr default_config"
    unfolding lines_of_default plain_text_def
    by (simp only: config_lines.simps default_comments config_line_keys set_option_simps sum.case
        map_sum.simps default_numbers id_apply) (simp add: default_config_def)
  then show ?thesis
    by (simp add: load_config_def)
qed

section \<open>Properties\<close>

text \<open>
  C39: A configuration whose texts have no newline and no white space at their ends is
  restored, whatever the program's configuration was before, from the file that writes its
  seven fields as \<open>key=value\<close> lines.
\<close>
theorem config_file_round_trip:
  assumes "plain_text (passphrase c)" and "plain_text (interface c)" and "plain_text (log_file c)"
    and "plain_text (queue_file c)"
  shows "load_config (Some (config_text c)) c0 = Inr (True, c)"
proof -
  let ?ls = "[''passphrase='' @ passphrase c, ''interface='' @ interface c, ''log_file='' @ log_file c,
      ''queue_file='' @ queue_file c, ''fragment_timeout_sec='' @ show_dec (unat (fragment_timeout_sec c)),
      ''discovery_ttl='' @ show_dec (unat (discovery_ttl c)),
      ''discovery_interval_ms='' @ show_dec (unat (discovery_interval_ms c))]"
  have nl: "CHR 0x0A \<notin> set (show_dec n)" and trimmed: "trimmed (show_dec n)" for n
    using plain_show_dec [of n] by (simp_all add: plain_text_def)
  have lines: "lines_of (config_text c) = ?ls"
    unfolding config_text_def using assms nl
    by (intro lines_of_unlines) (simp add: plain_text_def)
  have small: "unat (fragment_timeout_sec c) < 2 ^ 64" "unat (discovery_ttl c) < 2 ^ 64"
      "unat (discovery_interval_ms c) < 2 ^ 64"
    by (rule less_le_trans [OF unsigned_less], simp)+
  then have "stoul (show_dec (unat (fragment_timeout_sec c))) = Inr (ucast (fragment_timeout_sec c))"
      "stoul (show_dec (unat (discovery_ttl c))) = Inr (ucast (discovery_ttl c))"
      "stoul (show_dec (unat (discovery_interval_ms c))) = Inr (ucast (discovery_interval_ms c))"
    by (simp_all add: of_nat_unat)
  then have "config_lines ?ls c0 = Inr c"
    using assms
    by (simp only: config_lines.simps config_line_keys plain_text_def trimmed set_option_simps sum.case map_sum.simps)
      (simp add: widen_narrow)
  then show ?thesis
    by (simp only: load_config_def option.case lines map_sum.simps)
qed

theorem config_file_round_trip_witness:
  "load_config (Some (config_text (default_config \<lparr> passphrase := ''a = b # c'', discovery_ttl := 255 \<rparr>))) default_config =
    Inr (True, default_config \<lparr> passphrase := ''a = b # c'', discovery_ttl := 255 \<rparr>)"
  by (rule config_file_round_trip) (simp_all add: default_config_def plain_text_def trimmed_def is_space_def)

text \<open>
  The file \<open>save_default_config\<close> writes sets every field to its default, the one
  \<open>NodeConfig\<close> is constructed with, whatever the configuration was.
\<close>
theorem saved_default_is_default:
  "load_config (Some save_default_config) c = Inr (True, default_config)"
  by (rule load_default)

text \<open>
  The last line wins: a line \<open>key=value\<close> after a text that loads sets that one option on
  top of it; the numeric options throw on a value that does not start with a number, which
  nothing catches.
\<close>
theorem last_setting_wins:
  assumes "load_config (Some body) c = Inr (True, c1)" and "body = [] \<or> last body = CHR 0x0A"
    and "key \<in> set option_keys" and "plain_text val"
  shows "load_config (Some (body @ key @ ''='' @ val)) c = map_sum id (Pair True) (set_option key val c1)"
proof -
  have "CHR 0x0A \<notin> set (key @ ''='' @ val)"
    using assms(3,4) by (auto simp: option_keys_def plain_text_def)
  then have "lines_of (body @ key @ ''='' @ val) = lines_of body @ [key @ ''='' @ val]"
    using assms(2) by (subst lines_of_append) (simp_all add: lines_of_single)
  moreover have "config_line (key @ ''='' @ val) c1 = set_option key val c1"
    using assms(3,4) by (intro config_line_key) (simp_all add: plain_text_def)
  ultimately show ?thesis
    using assms(1) by (auto simp: load_config_def config_lines_append split: sum.splits)
qed

theorem last_setting_wins_witness:
  "load_config (Some (save_default_config @ ''discovery_ttl'' @ ''='' @ ''300'')) default_config =
      Inr (True, default_config \<lparr> discovery_ttl := 44 \<rparr>) \<and>
    load_config (Some (save_default_config @ ''discovery_ttl'' @ ''='' @ [])) default_config = Inl Invalid_argument"
proof -
  have end_line: "save_default_config = [] \<or> last save_default_config = CHR 0x0A"
    by (simp add: save_default_config_def)
  have key: "''discovery_ttl'' \<in> set option_keys"
    by (simp add: option_keys_def)
  have val: "plain_text ''300''" "plain_text []"
    by (simp_all add: plain_text_def trimmed_def is_space_def)
  have num: "stoul ''300'' = Inr 300" "stoul [] = Inl Invalid_argument"
    by (simp_all add: stoul_def skip_ws_def is_space_def scan_sign_def is_dec_def digits_value_def digit_value_def)
  show ?thesis
    using last_setting_wins [OF load_default end_line key val(1)] last_setting_wins [OF load_default end_line key val(2)]
    by (simp only: set_option_simps num map_sum.simps) simp
qed

end
