(* ===== verification/Fragment.thy ===== *)
theory Fragment
  imports Packet Std_Map
begin

text \<open>
  \<open>include/fragment.hpp\<close> and \<open>src/fragment.cpp\<close>: splitting a message into packets,
  collecting fragments per message identifier, reassembly into the caller's buffer, and the
  expiry of incomplete messages.

  The clock is an argument: \<open>now\<close> is the reading of the steady clock in nanoseconds.
\<close>

definition MAX_FRAG_PAYLOAD :: nat where "MAX_FRAG_PAYLOAD = 480"
definition FRAG_HEADER_SIZE :: nat where "FRAG_HEADER_SIZE = 6"

lemmas frag_sizes = MAX_FRAG_PAYLOAD_def FRAG_HEADER_SIZE_def

section \<open>Data\<close>

record frag_header =
  msg_id :: u16
  frag_index :: u8
  frag_total :: u8
  total_len :: u16

definition frag_header_bytes :: "frag_header \<Rightarrow> bytes" where
  "frag_header_bytes fh =
     le_bytes 2 (msg_id fh) @ [frag_index fh, frag_total fh] @ le_bytes 2 (total_len fh)"

definition frag_header_of_bytes :: "bytes \<Rightarrow> frag_header" where
  "frag_header_of_bytes b =
     \<lparr> msg_id = of_le_bytes (take 2 b), frag_index = b ! 2, frag_total = b ! 3,
       total_len = of_le_bytes (take 2 (drop 4 b)) \<rparr>"

record partial_msg =
  fragments :: "(u8, bytes) std_map"
  total_frags :: u8
  received :: int

record fragment_manager =
  partials :: "(u16, partial_msg) std_map"
  next_msg_id :: u16

definition empty_partial :: partial_msg where
  "empty_partial = \<lparr> fragments = [], total_frags = 0, received = 0 \<rparr>"

definition new_fragment_manager :: fragment_manager where
  "new_fragment_manager = \<lparr> partials = [], next_msg_id = 1 \<rparr>"

section \<open>Splitting\<close>

text \<open>The packet the loop of \<open>fragment_message\<close> builds at index \<open>i\<close>.\<close>

definition fragment_packet ::
    "bytes \<Rightarrow> u8 \<Rightarrow> mac \<Rightarrow> mac \<Rightarrow> u32 \<Rightarrow> u16 \<Rightarrow> u8 \<Rightarrow> nat \<Rightarrow> packet" where
  "fragment_packet data ty src dst seq mid tot i =
     (let len = length data;
          pkt = init ty src dst seq;
          fh = \<lparr> msg_id = mid, frag_index = of_nat i, frag_total = tot, total_len = of_nat len \<rparr>;
          offset = i * MAX_FRAG_PAYLOAD;
          frag_len = (if offset + MAX_FRAG_PAYLOAD > len then len - offset else MAX_FRAG_PAYLOAD);
          buf = overwrite (payload pkt) 0 (frag_header_bytes fh);
          buf = overwrite buf FRAG_HEADER_SIZE (take frag_len (drop offset data))
      in pkt \<lparr> payload := buf,
               header := (header pkt) \<lparr> payload_len := of_nat (FRAG_HEADER_SIZE + frag_len) \<rparr> \<rparr>)"

text \<open>The loop itself, with \<open>n\<close> iterations left at index \<open>i\<close>; \<open>seq\<close> is \<open>seq_num\<close>.\<close>

fun fragment_loop ::
    "nat \<Rightarrow> nat \<Rightarrow> bytes \<Rightarrow> u8 \<Rightarrow> mac \<Rightarrow> mac \<Rightarrow> u32 \<Rightarrow> u16 \<Rightarrow> u8 \<Rightarrow> packet list \<times> u32" where
  "fragment_loop 0 i data ty src dst seq mid tot = ([], seq)"
| "fragment_loop (Suc n) i data ty src dst seq mid tot =
     (let pkt = fragment_packet data ty src dst seq mid tot i;
          (pkts, seq') = fragment_loop n (Suc i) data ty src dst (seq + 1) mid tot
      in (pkt # pkts, seq'))"

definition fragment_message ::
    "fragment_manager \<Rightarrow> bytes \<Rightarrow> u8 \<Rightarrow> mac \<Rightarrow> mac \<Rightarrow> u32 \<Rightarrow> packet list \<times> fragment_manager \<times> u32" where
  "fragment_message fm data ty src dst seq_num =
     (let len = length data
      in if len \<le> MAX_FRAG_PAYLOAD
         then ([set_payload (init ty src dst seq_num) data], fm, seq_num + 1)
         else
           (let tot = (of_nat ((len + MAX_FRAG_PAYLOAD - 1) div MAX_FRAG_PAYLOAD) :: u8);
                tot = (if tot = 0 then 1 else tot);
                mid = next_msg_id fm;
                (pkts, seq') = fragment_loop (unat tot) 0 data ty src dst seq_num mid tot
            in (pkts, fm \<lparr> next_msg_id := next_msg_id fm + 1 \<rparr>, seq')))"

section \<open>Reassembly\<close>

text \<open>
  The copy loop: the indices still to visit, the offset reached and the output buffer.  A
  missing index reads as an empty fragment, as \<open>operator[]\<close> creates one.
\<close>

fun copy_fragments :: "(u8, bytes) std_map \<Rightarrow> nat \<Rightarrow> nat list \<Rightarrow> nat \<Rightarrow> bytes \<Rightarrow> fault + (nat \<times> bytes)" where
  "copy_fragments frs tot [] offset out_buf = Inr (offset, out_buf)"
| "copy_fragments frs tot (i # is) offset out_buf =
     (if offset \<ge> tot then Inr (offset, out_buf)
      else
        (let f = (case m_find frs (of_nat i) of Some f \<Rightarrow> f | None \<Rightarrow> []);
             remaining = tot - offset;
             copy_len = (if length f < remaining then length f else remaining)
         in if offset + copy_len > length out_buf then Inl Out_of_bounds
            else copy_fragments frs tot is (offset + copy_len) (overwrite out_buf offset (take copy_len f))))"

text \<open>
  The result of \<open>reassemble_packet\<close>: whether it returned \<open>true\<close>, the manager, the output
  buffer, and \<open>out_len\<close>, which is assigned only on the way to \<open>true\<close>.
\<close>

definition reassemble_packet ::
    "fragment_manager \<Rightarrow> packet \<Rightarrow> int \<Rightarrow> bytes \<Rightarrow> nat \<Rightarrow> nat \<Rightarrow>
      fault + (bool \<times> fragment_manager \<times> bytes \<times> nat)" where
  "reassemble_packet fm frag now out_buf max_out out_len =
     (let plen = unat (payload_len (header frag))
      in if plen < FRAG_HEADER_SIZE then Inr (False, fm, out_buf, out_len)
         else
           (let fh = frag_header_of_bytes (take FRAG_HEADER_SIZE (payload frag))
            in if frag_total fh \<le> 1 then Inr (False, fm, out_buf, out_len)
               else if plen > length (payload frag) then Inl Out_of_bounds
               else
                 (let partial = (case m_find (partials fm) (msg_id fh) of
                                   Some p \<Rightarrow> p | None \<Rightarrow> empty_partial);
                      frag_data = take (plen - FRAG_HEADER_SIZE) (drop FRAG_HEADER_SIZE (payload frag));
                      partial = partial \<lparr> received := now, total_frags := frag_total fh,
                                  fragments := m_put (frag_index fh) frag_data (fragments partial) \<rparr>;
                      stored = fm \<lparr> partials := m_put (msg_id fh) partial (partials fm) \<rparr>;
                      erased = fm \<lparr> partials := m_erase (msg_id fh) (partials stored) \<rparr>
                  in if length (fragments partial) \<noteq> unat (frag_total fh)
                       then Inr (False, stored, out_buf, out_len)
                     else if unat (total_len fh) > max_out then Inr (False, erased, out_buf, out_len)
                     else
                       (case copy_fragments (fragments partial) (unat (total_len fh))
                               [0..<unat (frag_total fh)] 0 out_buf of
                          Inl e \<Rightarrow> Inl e
                        | Inr (offset, out_buf') \<Rightarrow> Inr (True, erased, out_buf', offset)))))"

section \<open>Expiry\<close>

text \<open>\<open>duration_cast<seconds>\<close> truncates toward zero.\<close>

definition whole_seconds :: "int \<Rightarrow> int" where
  "whole_seconds ns = (if 0 \<le> ns then ns div 1000000000 else - ((- ns) div 1000000000))"

definition cleanup_stale :: "fragment_manager \<Rightarrow> int \<Rightarrow> u32 \<Rightarrow> fragment_manager" where
  "cleanup_stale fm now max_age_seconds =
     fm \<lparr> partials := m_filter (\<lambda>p. \<not> whole_seconds (now - received p) > uint max_age_seconds)
            (partials fm) \<rparr>"

section \<open>The fragments of a message\<close>

definition chunk :: "bytes \<Rightarrow> nat \<Rightarrow> bytes" where
  "chunk data i = take 480 (drop (i * 480) data)"

definition fragment_count :: "bytes \<Rightarrow> nat" where
  "fragment_count data = (length data + 479) div 480"

definition fragment_bytes :: "bytes \<Rightarrow> u16 \<Rightarrow> u8 \<Rightarrow> nat \<Rightarrow> bytes" where
  "fragment_bytes data mid tot i =
     frag_header_bytes \<lparr> msg_id = mid, frag_index = of_nat i, frag_total = tot,
       total_len = of_nat (length data) \<rparr> @ chunk data i"

lemma length_chunk [simp]: "length (chunk data i) = min 480 (length data - i * 480)"
  by (simp add: chunk_def)

lemma length_frag_header_bytes [simp, len_simps]: "length (frag_header_bytes fh) = 6"
  by (simp add: frag_header_bytes_def)

lemma frag_header_of_bytes_append [simp]:
  "frag_header_of_bytes (frag_header_bytes fh @ r) = fh"
  by (simp add: frag_header_of_bytes_def frag_header_bytes_def nth_append)

lemma frag_header_of_take:
  "6 \<le> n \<Longrightarrow> frag_header_of_bytes (take n b) = frag_header_of_bytes b"
  by (simp add: frag_header_of_bytes_def drop_take)

lemma length_fragment_bytes: "length (fragment_bytes data mid tot i) \<le> 486"
  by (simp add: fragment_bytes_def)

lemma fragment_packet_eq:
  "fragment_packet data ty src dst seq mid tot i =
    set_payload (init ty src dst seq) (fragment_bytes data mid tot i)"
proof -
  let ?fh = "\<lparr> msg_id = mid, frag_index = of_nat i, frag_total = tot, total_len = of_nat (length data) \<rparr>"
  let ?n = "if i * 480 + 480 > length data then length data - i * 480 else 480"
  have c: "take ?n (drop (i * 480) data) = chunk data i"
    by (auto simp: chunk_def)
  have n: "6 + ?n = length (fragment_bytes data mid tot i)"
    by (auto simp: fragment_bytes_def)
  have buf: "overwrite (overwrite (replicate 512 0) 0 (frag_header_bytes ?fh)) 6 (chunk data i) =
      overwrite (replicate 512 0) 0 (fragment_bytes data mid tot i)"
    using overwrite_append [of 0 "frag_header_bytes ?fh" "chunk data i" "replicate 512 0"]
    by (simp add: fragment_bytes_def)
  show ?thesis
    unfolding fragment_packet_def Let_def frag_sizes c n header_init MAX_PAYLOAD_SIZE_def buf
    by (simp add: set_payload_def init_def MAX_PAYLOAD_SIZE_def)
qed

lemma fragment_loop_eq:
  "fragment_loop n i data ty src dst seq mid tot =
    (map (\<lambda>k. fragment_packet data ty src dst (seq + of_nat k) mid tot (i + k)) [0..<n], seq + of_nat n)"
proof (induction n arbitrary: i seq)
  case 0
  show ?case by simp
next
  case (Suc n)
  have "map (\<lambda>k. fragment_packet data ty src dst (seq + of_nat k) mid tot (i + k)) [0..<Suc n] =
      fragment_packet data ty src dst seq mid tot i #
      map (\<lambda>k. fragment_packet data ty src dst (seq + of_nat (Suc k)) mid tot (i + Suc k)) [0..<n]"
    by (simp only: map_upt_Suc) simp
  then show ?case
    by (simp add: Suc Let_def add.assoc del: upt_Suc)
qed

lemma fragment_count_bounds:
  assumes "480 < length data" and "length data \<le> 122400"
  shows "2 \<le> fragment_count data" and "fragment_count data \<le> 255"
    and "(fragment_count data - 1) * 480 < length data" and "length data \<le> fragment_count data * 480"
proof -
  have "fragment_count data * 480 + (length data + 479) mod 480 = length data + 479"
    unfolding fragment_count_def by (rule div_mult_mod_eq)
  moreover have "(length data + 479) mod 480 < 480"
    by simp
  ultimately show "2 \<le> fragment_count data" "fragment_count data \<le> 255"
    "(fragment_count data - 1) * 480 < length data" "length data \<le> fragment_count data * 480"
    using assms by linarith+
qed

lemma fragment_message_split:
  assumes "480 < length data" and "length data \<le> 122400"
  shows "fragment_message fm data ty src dst seq =
    (map (\<lambda>k. set_payload (init ty src dst (seq + of_nat k))
        (fragment_bytes data (next_msg_id fm) (of_nat (fragment_count data)) k)) [0..<fragment_count data],
     fm \<lparr> next_msg_id := next_msg_id fm + 1 \<rparr>, seq + of_nat (fragment_count data))"
proof -
  note b = fragment_count_bounds [OF assms]
  have n: "unat (of_nat (fragment_count data) :: u8) = fragment_count data"
    using b by (simp add: unat_of_nat take_bit_nat_eq_self)
  then have "(of_nat (fragment_count data) :: u8) \<noteq> 0"
    using b by (metis not_numeral_le_zero unsigned_0)
  moreover have "(length data + 480 - 1) div 480 = fragment_count data"
    by (simp add: fragment_count_def)
  moreover have "\<not> length data \<le> 480"
    using assms by simp
  ultimately show ?thesis
    using n unfolding fragment_message_def frag_sizes Let_def
    by (simp only: if_False fragment_loop_eq fragment_packet_eq prod.case add_0)
qed

section \<open>The manager's invariant\<close>

definition fm_ok :: "fragment_manager \<Rightarrow> bool" where
  "fm_ok fm \<longleftrightarrow> m_ok (partials fm) \<and>
     (\<forall>mid q. m_find (partials fm) mid = Some q \<longrightarrow> m_ok (fragments q))"

lemma fm_ok_new: "fm_ok new_fragment_manager"
  by (simp add: fm_ok_def new_fragment_manager_def)

text \<open>What the manager holds for one message identifier.\<close>

definition partial_of :: "fragment_manager \<Rightarrow> u16 \<Rightarrow> partial_msg" where
  "partial_of fm mid = (case m_find (partials fm) mid of Some p \<Rightarrow> p | None \<Rightarrow> empty_partial)"

definition frag_header_of :: "packet \<Rightarrow> frag_header" where
  "frag_header_of p = frag_header_of_bytes (take FRAG_HEADER_SIZE (payload p))"

text \<open>\<open>reassemble_packet\<close> as one step: ignore the packet, store it, or complete the message.\<close>

definition with_fragment :: "fragment_manager \<Rightarrow> packet \<Rightarrow> int \<Rightarrow> partial_msg" where
  "with_fragment fm p now =
     (partial_of fm (msg_id (frag_header_of p)))
       \<lparr> received := now, total_frags := frag_total (frag_header_of p),
         fragments := m_put (frag_index (frag_header_of p))
           (drop FRAG_HEADER_SIZE (payload_bytes p))
           (fragments (partial_of fm (msg_id (frag_header_of p)))) \<rparr>"

lemma fragments_with_fragment:
  "fragments (with_fragment fm p now) =
    m_put (frag_index (frag_header_of p)) (drop FRAG_HEADER_SIZE (payload_bytes p))
      (fragments (partial_of fm (msg_id (frag_header_of p))))"
  by (simp add: with_fragment_def)

lemma reassemble_packet_eq:
  assumes "unat (payload_len (header p)) \<le> length (payload p)"
  shows "reassemble_packet fm p now buf max_out ol =
    (let fh = frag_header_of p; q = with_fragment fm p now;
         erased = fm \<lparr> partials := m_erase (msg_id fh) (m_put (msg_id fh) q (partials fm)) \<rparr>
     in if unat (payload_len (header p)) < FRAG_HEADER_SIZE \<or> frag_total fh \<le> 1
          then Inr (False, fm, buf, ol)
        else if length (fragments q) \<noteq> unat (frag_total fh)
          then Inr (False, fm \<lparr> partials := m_put (msg_id fh) q (partials fm) \<rparr>, buf, ol)
        else if unat (total_len fh) > max_out then Inr (False, erased, buf, ol)
        else map_sum id (\<lambda>(off, b). (True, erased, b, off))
          (copy_fragments (fragments q) (unat (total_len fh)) [0..<unat (frag_total fh)] 0 buf))"
proof -
  have "take (unat (payload_len (header p)) - 6) (drop 6 (payload p)) = drop 6 (payload_bytes p)"
    by (simp add: payload_bytes_def drop_take)
  then show ?thesis
    using assms
    by (simp add: reassemble_packet_def with_fragment_def partial_of_def frag_header_of_def Let_def
        FRAG_HEADER_SIZE_def not_less split: sum.split)
qed

lemma with_fragment_ok: "fm_ok fm \<Longrightarrow> m_ok (fragments (with_fragment fm p now))"
  by (auto simp: with_fragment_def partial_of_def fm_ok_def empty_partial_def m_ok_put
      split: option.splits)

lemma fm_ok_put: "fm_ok fm \<Longrightarrow> m_ok (fragments q) \<Longrightarrow> fm_ok (fm \<lparr> partials := m_put mid q (partials fm) \<rparr>)"
  by (auto simp: fm_ok_def m_ok_put)

lemma fm_ok_erase: "fm_ok fm \<Longrightarrow> fm_ok (fm \<lparr> partials := m_erase mid (m_put mid q (partials fm)) \<rparr>)"
  by (auto simp: fm_ok_def m_ok_put std.invar_erase split: if_splits)

subsection \<open>Safety of the copy loop\<close>

lemma copy_fragments_safe:
  assumes "tot \<le> length buf" and "off \<le> tot"
  shows "\<exists>off' buf'. copy_fragments frs tot is off buf = Inr (off', buf') \<and>
    off' \<le> tot \<and> length buf' = length buf \<and> drop tot buf' = drop tot buf"
  using assms
proof (induction frs tot "is" off buf rule: copy_fragments.induct)
  case (1 frs tot offset out_buf)
  then show ?case by simp
next
  case (2 frs tot i "is" offset out_buf)
  show ?case
  proof (cases "offset \<ge> tot")
    case True
    with "2.prems" show ?thesis by simp
  next
    case False
    let ?f = "case m_find frs (of_nat i) of Some f \<Rightarrow> f | None \<Rightarrow> []"
    let ?n = "if length ?f < tot - offset then length ?f else tot - offset"
    let ?b = "overwrite out_buf offset (take ?n ?f)"
    have n: "offset + ?n \<le> tot" "length (take ?n ?f) = ?n"
      using False by auto
    then have b: "length ?b = length out_buf" "drop tot ?b = drop tot out_buf"
      using "2.prems" False by (auto simp: drop_overwrite)
    have fits: "\<not> offset + ?n > length out_buf"
      using n "2.prems" by linarith
    have "\<exists>off' buf'. copy_fragments frs tot is (offset + ?n) ?b = Inr (off', buf') \<and>
        off' \<le> tot \<and> length buf' = length ?b \<and> drop tot buf' = drop tot ?b"
      using "2.IH" [OF False refl refl refl fits] n(1) "2.prems" b by simp
    then show ?thesis
      using False fits b by (simp add: Let_def)
  qed
qed

lemma reassemble_packet_safe:
  assumes "unat (payload_len (header p)) \<le> length (payload p)" and "max_out \<le> length buf" and "fm_ok fm"
  shows "\<exists>c fm' buf' ol'. reassemble_packet fm p now buf max_out ol = Inr (c, fm', buf', ol') \<and>
    fm_ok fm' \<and> length buf' = length buf \<and> drop max_out buf' = drop max_out buf \<and>
    (if c then ol' \<le> unat (total_len (frag_header_of p)) \<and> ol' \<le> max_out else buf' = buf \<and> ol' = ol) \<and>
    (\<forall>mid. mid \<noteq> msg_id (frag_header_of p) \<longrightarrow> m_find (partials fm') mid = m_find (partials fm) mid)"
proof -
  let ?fh = "frag_header_of p" and ?q = "with_fragment fm p now"
  note q = with_fragment_ok [OF assms(3), of p now]
  have "\<exists>off' buf'. copy_fragments (fragments ?q) (unat (total_len ?fh)) [0..<unat (frag_total ?fh)] 0 buf =
      Inr (off', buf') \<and> off' \<le> unat (total_len ?fh) \<and> length buf' = length buf \<and>
      drop max_out buf' = drop max_out buf" if le: "unat (total_len ?fh) \<le> max_out"
  proof -
    obtain off' buf' where c: "copy_fragments (fragments ?q) (unat (total_len ?fh)) [0..<unat (frag_total ?fh)] 0 buf =
        Inr (off', buf')" "off' \<le> unat (total_len ?fh)" "length buf' = length buf"
        "drop (unat (total_len ?fh)) buf' = drop (unat (total_len ?fh)) buf"
      using copy_fragments_safe [OF le_trans [OF le assms(2)] le0, of "fragments ?q"
          "[0..<unat (frag_total ?fh)]"] by blast
    then have "drop max_out buf' = drop max_out buf"
      using le by (metis drop_drop le_add_diff_inverse2)
    with c show ?thesis by blast
  qed
  then show ?thesis
    using assms(3) q fm_ok_put [OF assms(3) q] fm_ok_erase [OF assms(3)]
    unfolding reassemble_packet_eq [OF assms(1)] Let_def
    by (auto simp: not_less) blast
qed

section \<open>Collecting one message\<close>

text \<open>
  The abstract state of a message being received is the set \<open>S\<close> of the indices that have
  arrived; the manager refines it when it stores exactly those chunks of the data.
\<close>

definition collected :: "fragment_manager \<Rightarrow> bytes \<Rightarrow> u16 \<Rightarrow> nat set \<Rightarrow> bool" where
  "collected fm data mid S \<longleftrightarrow> fm_ok fm \<and>
     (\<forall>i. m_find (fragments (partial_of fm mid)) i =
        (if unat i \<in> S then Some (chunk data (unat i)) else None))"

definition own_fragment :: "bytes \<Rightarrow> u16 \<Rightarrow> nat \<Rightarrow> packet \<Rightarrow> bool" where
  "own_fragment data mid k p \<longleftrightarrow>
     payload_bytes p = fragment_bytes data mid (of_nat (fragment_count data)) k \<and>
     unat (payload_len (header p)) \<le> length (payload p)"

lemma collected_start:
  "fm_ok fm \<Longrightarrow> m_find (partials fm) mid = None \<Longrightarrow> collected fm data mid {}"
  by (simp add: collected_def partial_of_def empty_partial_def)

lemma own_fragment_header:
  assumes "own_fragment data mid k p"
  shows "frag_header_of p = \<lparr> msg_id = mid, frag_index = of_nat k,
      frag_total = of_nat (fragment_count data), total_len = of_nat (length data) \<rparr>"
    and "drop FRAG_HEADER_SIZE (payload_bytes p) = chunk data k"
    and "\<not> unat (payload_len (header p)) < FRAG_HEADER_SIZE"
proof -
  have pb: "take (unat (payload_len (header p))) (payload p) =
      fragment_bytes data mid (of_nat (fragment_count data)) k"
    using assms by (simp add: own_fragment_def payload_bytes_def)
  then have "unat (payload_len (header p)) = length (fragment_bytes data mid (of_nat (fragment_count data)) k)"
    using assms by (metis length_take min_absorb2 own_fragment_def)
  then have n: "6 \<le> unat (payload_len (header p))"
    by (simp add: fragment_bytes_def)
  then show "\<not> unat (payload_len (header p)) < FRAG_HEADER_SIZE"
    by (simp add: FRAG_HEADER_SIZE_def)
  have "frag_header_of p = frag_header_of_bytes (take (unat (payload_len (header p))) (payload p))"
    using n by (simp add: frag_header_of_def FRAG_HEADER_SIZE_def frag_header_of_take)
  then show "frag_header_of p = \<lparr> msg_id = mid, frag_index = of_nat k,
      frag_total = of_nat (fragment_count data), total_len = of_nat (length data) \<rparr>"
    by (simp add: pb fragment_bytes_def)
  show "drop FRAG_HEADER_SIZE (payload_bytes p) = chunk data k"
    by (simp add: payload_bytes_def pb fragment_bytes_def FRAG_HEADER_SIZE_def)
qed

lemma unat_of_nat_u8: "n < 256 \<Longrightarrow> unat (of_nat n :: u8) = n"
  by (simp add: unat_of_nat take_bit_nat_eq_self)

lemma partial_of_put [simp]:
  "partial_of (fm \<lparr> partials := m_put mid q (partials fm) \<rparr>) mid' = (if mid' = mid then q else partial_of fm mid')"
  by (simp add: partial_of_def)

text \<open>The fragments stored once chunk \<open>k\<close> has been added to the indices \<open>S\<close>.\<close>

lemma with_own_fragment:
  assumes "collected fm data mid S" and "own_fragment data mid k p" and "k < 256"
  shows "m_find (fragments (with_fragment fm p now)) i =
    (if unat i \<in> insert k S then Some (chunk data (unat i)) else None)"
proof -
  note h = own_fragment_header [OF assms(2)]
  have "(i = of_nat k) = (unat i = k)"
    using assms(3) by (auto simp: unat_of_nat_u8)
  then show ?thesis
    using assms(1) by (auto simp: with_fragment_def h collected_def)
qed

lemma fragments_complete_iff:
  assumes "m_ok frs" and "\<And>i. m_find frs i = (if unat i \<in> S then Some (f i) else None)"
    and "S \<subseteq> {..<n}" and "n \<le> 255"
  shows "length (frs :: (u8, bytes) std_map) = n \<longleftrightarrow> S = {..<n}"
proof -
  have "dom (m_find frs) = {i. unat i \<in> S}"
    using assms(2) by (auto simp: dom_def)
  also have "\<dots> = of_nat ` S"
  proof
    show "of_nat ` S \<subseteq> {i :: u8. unat i \<in> S}"
      using assms(3,4) by (auto simp: unat_of_nat_u8 dest!: subsetD)
    show "{i :: u8. unat i \<in> S} \<subseteq> of_nat ` S"
    proof
      fix i :: u8 assume "i \<in> {i. unat i \<in> S}"
      then have "i = of_nat (unat i)" "unat i \<in> S" by simp_all
      then show "i \<in> of_nat ` S" by (rule image_eqI)
    qed
  qed
  finally have "length frs = card (of_nat ` S :: u8 set)"
    using assms(1) by (simp add: std.count_card)
  also have "\<dots> = card S"
  proof (rule card_image, rule inj_on_inverseI)
    fix k assume "k \<in> S"
    then show "unat (of_nat k :: u8) = k"
      using assms(3,4) by (intro unat_of_nat_u8) auto
  qed
  finally show ?thesis
    using assms(3) by (metis card_lessThan card_subset_eq finite_lessThan)
qed

text \<open>The copy loop over all chunks writes the data.\<close>

lemma copy_all_chunks:
  assumes "\<And>i. i < n \<Longrightarrow> m_find frs (of_nat i) = Some (chunk data i)"
    and "length data \<le> n * 480" and "length data \<le> length buf" and "i \<le> n" and "i * 480 \<le> length data"
  shows "copy_fragments frs (length data) [i..<n] (i * 480) buf =
    Inr (length data, overwrite buf (i * 480) (drop (i * 480) data))"
  using assms(3-5)
proof (induction "n - i" arbitrary: i buf)
  case 0
  then have "i = n" "length data = n * 480"
    using assms(2) by auto
  then show ?case by simp
next
  case (Suc m)
  show ?case
  proof (cases "i * 480 = length data")
    case True
    then show ?thesis
      using Suc by (cases "[i..<n]") auto
  next
    case False
    then have lt: "i * 480 < length data" "i < n"
      using Suc by auto
    let ?f = "chunk data i" and ?b = "overwrite buf (i * 480) (chunk data i)"
    have len: "length ?f = min 480 (length data - i * 480)" by simp
    have step: "copy_fragments frs (length data) [i..<n] (i * 480) buf =
        copy_fragments frs (length data) [Suc i..<n] (i * 480 + length ?f) ?b"
    proof -
      have c: "(if length ?f < length data - i * 480 then length ?f else length data - i * 480) = length ?f"
        by (simp add: min_def)
      have "\<not> i * 480 + length ?f > length buf" "\<not> i * 480 \<ge> length data"
        using lt Suc.prems by auto
      then show ?thesis
        using lt(2) assms(1) [of i]
        by (simp only: upt_conv_Cons copy_fragments.simps Let_def option.case c if_False take_all order_refl)
    qed
    have split: "drop (i * 480) data = ?f @ drop (Suc i * 480) data"
      by (simp add: chunk_def add.commute flip: drop_drop)
    show ?thesis
    proof (cases "Suc i * 480 \<le> length data")
      case True
      then have f: "i * 480 + length ?f = Suc i * 480"
        by simp
      have "copy_fragments frs (length data) [Suc i..<n] (Suc i * 480) ?b =
          Inr (length data, overwrite ?b (Suc i * 480) (drop (Suc i * 480) data))"
        using Suc True lt by (intro Suc.hyps(1)) auto
      moreover have "overwrite ?b (i * 480 + length ?f) (drop (Suc i * 480) data) =
          overwrite buf (i * 480) (?f @ drop (Suc i * 480) data)"
        using True Suc.prems by (intro overwrite_append) simp
      ultimately show ?thesis
        by (simp only: step f split)
    next
      case False
      then have "i * 480 + length ?f = length data" "drop (Suc i * 480) data = []"
        using lt by auto
      then show ?thesis
        using step split by (cases "[Suc i..<n]") auto
    qed
  qed
qed

text \<open>One fragment of the message arrives.\<close>

lemma collect_step:
  assumes "collected fm data mid S" and "own_fragment data mid k p" and "k < fragment_count data"
    and "S \<subseteq> {..<fragment_count data}" and "480 < length data" and "length data \<le> 65535"
  shows "insert k S \<noteq> {..<fragment_count data} \<Longrightarrow>
      \<exists>fm'. reassemble_packet fm p now buf max_out ol = Inr (False, fm', buf, ol) \<and>
        collected fm' data mid (insert k S)"
    and "insert k S = {..<fragment_count data} \<Longrightarrow> length data \<le> max_out \<Longrightarrow> max_out \<le> length buf \<Longrightarrow>
      \<exists>fm'. reassemble_packet fm p now buf max_out ol =
          Inr (True, fm', overwrite buf 0 data, length data) \<and>
        fm_ok fm' \<and> m_find (partials fm') mid = None"
proof -
  let ?n = "fragment_count data" and ?q = "with_fragment fm p now"
  have n: "2 \<le> ?n" "?n \<le> 255" "length data \<le> ?n * 480"
    using fragment_count_bounds [of data] assms(5,6) by auto
  have tot: "unat (of_nat ?n :: u8) = ?n" "unat (of_nat (length data) :: u16) = length data"
    using n assms(6) by (simp_all add: unat_of_nat_u8 unat_of_nat_u16)
  then have tot1: "\<not> (of_nat ?n :: u8) \<le> 1"
    using n by (simp add: word_le_nat_alt)
  note h = own_fragment_header [OF assms(2)]
  have plen: "unat (payload_len (header p)) \<le> length (payload p)"
    using assms(2) by (simp add: own_fragment_def)
  have ok: "fm_ok fm" "m_ok (fragments ?q)"
    using assms(1) by (auto simp: collected_def intro: with_fragment_ok)
  have q: "m_find (fragments ?q) i = (if unat i \<in> insert k S then Some (chunk data (unat i)) else None)" for i
    using assms(1-3) n by (intro with_own_fragment) auto
  have complete: "length (fragments ?q) = ?n \<longleftrightarrow> insert k S = {..<?n}"
    using assms(3,4) n by (intro fragments_complete_iff [OF ok(2) q]) auto
  show "\<exists>fm'. reassemble_packet fm p now buf max_out ol = Inr (False, fm', buf, ol) \<and>
      collected fm' data mid (insert k S)" if "insert k S \<noteq> {..<?n}"
    using that complete tot tot1 h q fm_ok_put [OF ok]
    by (simp add: reassemble_packet_eq [OF plen] Let_def collected_def)
  show "\<exists>fm'. reassemble_packet fm p now buf max_out ol = Inr (True, fm', overwrite buf 0 data, length data) \<and>
      fm_ok fm' \<and> m_find (partials fm') mid = None"
    if all: "insert k S = {..<?n}" and fits: "length data \<le> max_out" "max_out \<le> length buf"
  proof -
    have "copy_fragments (fragments ?q) (length data) [0..<?n] (0 * 480) buf =
        Inr (length data, overwrite buf (0 * 480) (drop (0 * 480) data))"
      using q all n fits by (intro copy_all_chunks) (auto simp: unat_of_nat_u8)
    then show ?thesis
      using fits complete all tot tot1 h fm_ok_erase [OF ok(1)]
      by (simp add: reassemble_packet_eq [OF plen] Let_def)
  qed
qed

section \<open>Sequences of packets\<close>

text \<open>
  Packets handed to \<open>reassemble_packet\<close> one after the other, each with its arrival time
  and a fresh output buffer, as the receive loop does: the returned flags and the manager.
\<close>

fun receive_all :: "fragment_manager \<Rightarrow> (packet \<times> int) list \<Rightarrow> bytes \<Rightarrow> nat \<Rightarrow>
    fault + (bool list \<times> fragment_manager)" where
  "receive_all fm [] buf max_out = Inr ([], fm)"
| "receive_all fm ((p, now) # ps) buf max_out =
     (case reassemble_packet fm p now buf max_out 0 of
        Inl e \<Rightarrow> Inl e
      | Inr (c, fm', _, _) \<Rightarrow>
          (case receive_all fm' ps buf max_out of
             Inl e \<Rightarrow> Inl e
           | Inr (cs, fm'') \<Rightarrow> Inr (c # cs, fm'')))"

text \<open>Traffic: fragments of the message, by index, and packets of other messages.\<close>

definition pick :: "packet list \<Rightarrow> nat + packet \<Rightarrow> packet" where
  "pick pkts x = (case x of Inl k \<Rightarrow> pkts ! k | Inr p \<Rightarrow> p)"

definition traffic :: "packet list \<Rightarrow> ((nat + packet) \<times> int) list \<Rightarrow> (packet \<times> int) list" where
  "traffic pkts xs = map (\<lambda>(x, now). (pick pkts x, now)) xs"

lemma traffic_simps [simp]:
  "traffic pkts [] = []"
  "traffic pkts ((Inl k, now) # xs) = (pkts ! k, now) # traffic pkts xs"
  "traffic pkts ((Inr p, now) # xs) = (p, now) # traffic pkts xs"
  by (simp_all add: traffic_def pick_def)

definition own_indices :: "((nat + packet) \<times> int) list \<Rightarrow> nat set" where
  "own_indices xs = {k. Inl k \<in> fst ` set xs}"

lemma own_indices_simps [simp]:
  "own_indices [] = {}"
  "own_indices ((Inl k, t) # xs) = insert k (own_indices xs)"
  "own_indices ((Inr p, t) # xs) = own_indices xs"
  by (auto simp: own_indices_def)

definition foreign :: "u16 \<Rightarrow> packet \<Rightarrow> bool" where
  "foreign mid p \<longleftrightarrow> unat (payload_len (header p)) \<le> length (payload p) \<and> msg_id (frag_header_of p) \<noteq> mid"

lemma collect_foreign:
  assumes "collected fm data mid S" and "foreign mid p" and "max_out \<le> length buf"
  shows "\<exists>c fm' buf' ol'. reassemble_packet fm p now buf max_out ol = Inr (c, fm', buf', ol') \<and>
    collected fm' data mid S"
proof -
  have "fm_ok fm" "unat (payload_len (header p)) \<le> length (payload p)"
    using assms by (auto simp: collected_def foreign_def)
  from reassemble_packet_safe [OF this(2) assms(3) this(1), of now ol] obtain c fm' buf' ol' where
    "reassemble_packet fm p now buf max_out ol = Inr (c, fm', buf', ol')" "fm_ok fm'"
    "\<forall>mid. mid \<noteq> msg_id (frag_header_of p) \<longrightarrow> m_find (partials fm') mid = m_find (partials fm) mid"
    by blast
  then show ?thesis
    using assms(1,2) by (auto simp: collected_def foreign_def partial_of_def)
qed

lemma collect_all:
  assumes "collected fm data mid S" and "S \<subseteq> {..<fragment_count data}"
    and "\<And>k. k < fragment_count data \<Longrightarrow> own_fragment data mid k (pkts ! k)"
    and "\<And>k. Inl k \<in> fst ` set xs \<Longrightarrow> k < fragment_count data"
    and "\<And>p. Inr p \<in> fst ` set xs \<Longrightarrow> foreign mid p"
    and "l < fragment_count data" and "l \<notin> S \<union> own_indices xs"
    and "480 < length data" and "length data \<le> 65535" and "max_out \<le> length buf"
  shows "\<exists>flags fm'. receive_all fm (traffic pkts xs) buf max_out = Inr (flags, fm') \<and>
    collected fm' data mid (S \<union> own_indices xs) \<and>
    (\<forall>i < length xs. isl (fst (xs ! i)) \<longrightarrow> \<not> flags ! i)"
  using assms(1,2,4,5,7)
proof (induction xs arbitrary: fm S)
  case Nil
  then show ?case by simp
next
  case (Cons x xs)
  obtain y now where x: "x = (y, now)" by (cases x)
  show ?case
  proof (cases y)
    case (Inl k)
    have k: "k < fragment_count data" "own_fragment data mid k (pkts ! k)" "insert k S \<noteq> {..<fragment_count data}"
      using Cons.prems x Inl assms(3,6) by auto
    then obtain fm' where fm': "reassemble_packet fm (pkts ! k) now buf max_out 0 = Inr (False, fm', buf, 0)"
        "collected fm' data mid (insert k S)"
      using collect_step(1) [OF Cons.prems(1) k(2,1) Cons.prems(2) assms(8,9)] by blast
    have "\<exists>flags fm''. receive_all fm' (traffic pkts xs) buf max_out = Inr (flags, fm'') \<and>
        collected fm'' data mid (insert k S \<union> own_indices xs) \<and>
        (\<forall>i < length xs. isl (fst (xs ! i)) \<longrightarrow> \<not> flags ! i)"
      using Cons.prems x Inl k by (intro Cons.IH fm'(2)) auto
    then obtain flags fm'' where "receive_all fm' (traffic pkts xs) buf max_out = Inr (flags, fm'')"
        "collected fm'' data mid (insert k S \<union> own_indices xs)"
        "\<forall>i < length xs. isl (fst (xs ! i)) \<longrightarrow> \<not> flags ! i"
      by blast
    then show ?thesis
      using fm'(1) by (intro exI [of _ "False # flags"] exI [of _ fm'']) (simp add: x Inl All_less_Suc2)
  next
    case (Inr p)
    then have "foreign mid p"
      using Cons.prems x by auto
    then obtain c fm' buf' ol' where fm': "reassemble_packet fm p now buf max_out 0 = Inr (c, fm', buf', ol')"
        "collected fm' data mid S"
      using collect_foreign [OF Cons.prems(1) _ assms(10)] by blast
    have "\<exists>flags fm''. receive_all fm' (traffic pkts xs) buf max_out = Inr (flags, fm'') \<and>
        collected fm'' data mid (S \<union> own_indices xs) \<and>
        (\<forall>i < length xs. isl (fst (xs ! i)) \<longrightarrow> \<not> flags ! i)"
      using Cons.prems x Inr by (intro Cons.IH fm'(2)) auto
    then obtain flags fm'' where "receive_all fm' (traffic pkts xs) buf max_out = Inr (flags, fm'')"
        "collected fm'' data mid (S \<union> own_indices xs)"
        "\<forall>i < length xs. isl (fst (xs ! i)) \<longrightarrow> \<not> flags ! i"
      by blast
    then show ?thesis
      using fm'(1) by (intro exI [of _ "c # flags"] exI [of _ fm'']) (simp add: x Inr All_less_Suc2)
  qed
qed

lemma own_fragment_set_payload:
  assumes "length src = 6" "length dst = 6"
  shows "own_fragment data mid k
    (set_payload (init ty src dst seq) (fragment_bytes data mid (of_nat (fragment_count data)) k))"
proof -
  have len: "length (fragment_bytes data mid tot k) \<le> 486" for tot
    by (rule length_fragment_bytes)
  then have "unat (of_nat (length (fragment_bytes data mid tot k)) :: u16) = length (fragment_bytes data mid tot k)" for tot
    by (intro unat_of_nat_u16) (rule le_less_trans [OF len], simp)
  then show ?thesis
    using len assms by (simp add: own_fragment_def MAX_PAYLOAD_SIZE_def le_trans [OF len])
qed

lemma concat_chunk: "length data \<le> n * 480 \<Longrightarrow> concat (map (chunk data) [0..<n]) = data"
  using concat_chunks [of 480 data n] by (simp add: chunk_def [abs_def])

text \<open>
  Whichever packets carry the fragments, in whatever order: the last one to arrive
  delivers the message.
\<close>

lemma fragments_delivered:
  assumes "\<forall>k < fragment_count data. own_fragment data mid k (pkts ! k)" and "length pkts = fragment_count data"
    and "480 < length data" and "length data \<le> 65535"
    and "fm_ok rm" and "m_find (partials rm) mid = None"
    and "own_indices xs = {..<length pkts} - {l}" and "l < length pkts"
    and "\<forall>p. Inr p \<in> fst ` set xs \<longrightarrow> foreign mid p"
    and "length data \<le> max_out" and "max_out \<le> length buf"
  shows "\<exists>flags rm' rm''. receive_all rm (traffic pkts xs) buf max_out = Inr (flags, rm') \<and>
    (\<forall>i < length xs. isl (fst (xs ! i)) \<longrightarrow> \<not> flags ! i) \<and>
    reassemble_packet rm' (pkts ! l) now buf max_out ol =
      Inr (True, rm'', data @ drop (length data) buf, length data) \<and>
    m_find (partials rm'') mid = None"
proof -
  let ?n = "fragment_count data"
  have "\<exists>flags rm'. receive_all rm (traffic pkts xs) buf max_out = Inr (flags, rm') \<and>
      collected rm' data mid ({} \<union> own_indices xs) \<and>
      (\<forall>i < length xs. isl (fst (xs ! i)) \<longrightarrow> \<not> flags ! i)"
    using assms by (intro collect_all [where l = l] collected_start) (auto simp: own_indices_def)
  then obtain flags rm' where r: "receive_all rm (traffic pkts xs) buf max_out = Inr (flags, rm')"
      "collected rm' data mid ({..<?n} - {l})" "\<forall>i < length xs. isl (fst (xs ! i)) \<longrightarrow> \<not> flags ! i"
    using assms(2,7) by auto
  have "insert l ({..<?n} - {l}) = {..<?n}"
    using assms(2,8) by auto
  then have "\<exists>rm''. reassemble_packet rm' (pkts ! l) now buf max_out ol =
      Inr (True, rm'', overwrite buf 0 data, length data) \<and> fm_ok rm'' \<and> m_find (partials rm'') mid = None"
    using assms by (intro collect_step(2) [OF r(2)]) auto
  then show ?thesis
    using r(1,3) by (auto simp: overwrite_0)
qed

text \<open>The packets \<open>fragment_message\<close> makes do carry them.\<close>

lemma fragment_message_owns:
  assumes "fragment_message fm0 data ty src dst seq = (pkts, fm1, seq')"
    and "480 < length data" and "length data \<le> 65535" and "length src = 6" and "length dst = 6"
  shows "length pkts = fragment_count data \<and>
    (\<forall>k < fragment_count data. own_fragment data (next_msg_id fm0) k (pkts ! k))"
proof -
  have "pkts = map (\<lambda>k. set_payload (init ty src dst (seq + of_nat k))
      (fragment_bytes data (next_msg_id fm0) (of_nat (fragment_count data)) k)) [0..<fragment_count data]"
    using fragment_message_split [of data fm0 ty src dst seq] assms(1-3) by simp
  then show ?thesis
    using own_fragment_set_payload [OF assms(4,5)] by simp
qed

lemma m_find_cleanup:
  assumes "fm_ok fm"
  shows "m_find (partials (cleanup_stale fm now max_age)) k =
    (case m_find (partials fm) k of
       Some v \<Rightarrow> if \<not> whole_seconds (now - received v) > uint max_age then Some v else None
     | None \<Rightarrow> None)"
  using assms by (simp add: cleanup_stale_def fm_ok_def m_find_filter m_ok_distinct)

lemma fm_ok_cleanup: "fm_ok fm \<Longrightarrow> fm_ok (cleanup_stale fm now max_age)"
  using m_find_cleanup [of fm now max_age]
  by (auto simp: fm_ok_def cleanup_stale_def m_ok_m_filter split: option.splits if_splits)

section \<open>Properties\<close>

text \<open>
  C3: A message of 481 to 65535 bytes, split by \<open>fragment_message\<close>, is delivered whatever
  the order of arrival: after any traffic \<open>xs\<close> with repetitions and packets of other
  message ids in which every fragment but number \<open>l\<close> has occurred, no fragment has been
  reported complete, and fragment \<open>l\<close> makes \<open>reassemble_packet\<close> return \<open>true\<close> with
  exactly the message in the caller's buffer and forget it.
\<close>
theorem fragments_reassemble:
  assumes "fragment_message fm0 data ty src dst seq = (pkts, fm1, seq')"
    and "480 < length data" and "length data \<le> 65535" and "length src = 6" and "length dst = 6"
    and "fm_ok rm" and "m_find (partials rm) (next_msg_id fm0) = None"
    and "own_indices xs = {..<length pkts} - {l}" and "l < length pkts"
    and "\<forall>p. Inr p \<in> fst ` set xs \<longrightarrow> foreign (next_msg_id fm0) p"
    and "length data \<le> max_out" and "max_out \<le> length buf"
  shows "\<exists>flags rm' rm''. receive_all rm (traffic pkts xs) buf max_out = Inr (flags, rm') \<and>
    (\<forall>i < length xs. isl (fst (xs ! i)) \<longrightarrow> \<not> flags ! i) \<and>
    reassemble_packet rm' (pkts ! l) now buf max_out ol =
      Inr (True, rm'', data @ drop (length data) buf, length data) \<and>
    m_find (partials rm'') (next_msg_id fm0) = None"
  using fragment_message_owns [OF assms(1-5)] assms(2,3,6-12) by (intro fragments_delivered) simp_all

theorem fragments_reassemble_witness:
  "\<exists>pkts fm1 s flags rm' rm''.
    fragment_message new_fragment_manager (replicate 500 7) DATA (replicate 6 1) (replicate 6 2) 0 = (pkts, fm1, s) \<and>
    receive_all new_fragment_manager (traffic pkts [(Inl 1, 0)]) (replicate 600 0) 600 = Inr (flags, rm') \<and>
    reassemble_packet rm' (pkts ! 0) 5 (replicate 600 0) 600 0 =
      Inr (True, rm'', replicate 500 7 @ drop (length (replicate 500 (7::u8))) (replicate 600 0),
        length (replicate 500 (7::u8)))"
proof -
  obtain pkts fm1 s where m: "fragment_message new_fragment_manager (replicate 500 7) DATA
      (replicate 6 1) (replicate 6 2) 0 = (pkts, fm1, s)"
    by (metis prod_cases3)
  have "length pkts = 2"
    using m fragment_message_split [of "replicate 500 7" new_fragment_manager DATA "replicate 6 1" "replicate 6 2" 0]
    by (auto simp: fragment_count_def)
  then have l: "own_indices [(Inl 1, 0)] = {..<length pkts} - {0}" "0 < length pkts"
    by (auto simp: own_indices_def)
  have d: "480 < length (replicate 500 (7::u8))" "length (replicate 500 (7::u8)) \<le> 65535"
      "length (replicate 6 (1::u8)) = 6" "length (replicate 6 (2::u8)) = 6"
      "length (replicate 500 (7::u8)) \<le> 600" "600 \<le> length (replicate 600 (0::u8))"
    by simp_all
  have "m_find (partials new_fragment_manager) (next_msg_id new_fragment_manager) = None"
    by (simp add: new_fragment_manager_def)
  moreover have "\<forall>p. Inr p \<in> fst ` set [(Inl 1, 0)] \<longrightarrow> foreign (next_msg_id new_fragment_manager) p"
    by simp
  ultimately show ?thesis
    using fragments_reassemble [OF m d(1-4) fm_ok_new _ l _ d(5,6), of 5 0] m by blast
qed

text \<open>
  C26: Every fragment fits a packet: a message of at most 122400 bytes becomes
  \<open>max 1 (ceiling (length / 480))\<close> well-formed packets with consecutive sequence numbers
  whose declared payload is at most 486 bytes, and their chunks in order are the message.
\<close>
theorem fragment_message_packets:
  assumes "length data \<le> 122400" and "length src = 6" and "length dst = 6"
    and "fragment_message fm data ty src dst seq = (pkts, fm', seq')"
  shows "length pkts = max 1 ((length data + 479) div 480) \<and> seq' = seq + of_nat (length pkts) \<and>
    (\<forall>k < length pkts. wf_packet (pkts ! k) \<and> unat (payload_len (header (pkts ! k))) \<le> 486 \<and>
      sequence_id (header (pkts ! k)) = seq + of_nat k \<and> ptype (header (pkts ! k)) = ty) \<and>
    concat (map (\<lambda>p. drop (if length data \<le> MAX_FRAG_PAYLOAD then 0 else FRAG_HEADER_SIZE) (payload_bytes p)) pkts) = data"
proof (cases "length data \<le> 480")
  case True
  then have pkts: "pkts = [set_payload (init ty src dst seq) data]" "seq' = seq + 1"
    using assms(4) by (auto simp: fragment_message_def frag_sizes Let_def)
  have "(length data + 479) div 480 \<le> 1"
    using True by (simp add: less_Suc_eq_le [symmetric] less_mult_imp_div_less)
  then show ?thesis
    using True assms(2,3) by (simp add: pkts frag_sizes MAX_PAYLOAD_SIZE_def unat_of_nat_u16)
next
  case False
  let ?n = "fragment_count data"
  let ?b = "fragment_bytes data (next_msg_id fm) (of_nat ?n)"
  have pkts: "pkts = map (\<lambda>k. set_payload (init ty src dst (seq + of_nat k)) (?b k)) [0..<?n]"
      "seq' = seq + of_nat ?n"
    using fragment_message_split [of data fm ty src dst seq] assms(1,4) False by simp_all
  have b: "length (?b k) \<le> 486" "length (?b k) \<le> MAX_PAYLOAD_SIZE" for k
    using length_fragment_bytes [of data "next_msg_id fm" "of_nat ?n" k]
    by (simp_all add: MAX_PAYLOAD_SIZE_def)
  have len: "unat (of_nat (length (?b k)) :: u16) = length (?b k)" for k
    by (rule unat_of_nat_u16) (rule le_less_trans [OF b(1)], simp)
  have "map (\<lambda>p. drop FRAG_HEADER_SIZE (payload_bytes p)) pkts = map (chunk data) [0..<?n]"
    using b(2) by (simp add: pkts FRAG_HEADER_SIZE_def) (simp add: fragment_bytes_def)
  then have "concat (map (\<lambda>p. drop FRAG_HEADER_SIZE (payload_bytes p)) pkts) = data"
    using fragment_count_bounds(4) [of data] False assms(1) concat_chunk [of data ?n] by simp
  then show ?thesis
    using False b assms(2,3) fragment_count_bounds(1) [of data] assms(1)
    by (simp add: pkts(1) len) (simp add: pkts(2) fragment_count_def MAX_FRAG_PAYLOAD_def)
qed

theorem fragment_message_packets_witness:
  "\<exists>pkts fm' s. fragment_message new_fragment_manager (replicate 1000 7) DATA (replicate 6 1) (replicate 6 2) 0
      = (pkts, fm', s) \<and> length pkts = 3"
proof -
  obtain pkts fm' s where m: "fragment_message new_fragment_manager (replicate 1000 7) DATA
      (replicate 6 1) (replicate 6 2) 0 = (pkts, fm', s)"
    by (metis prod_cases3)
  have "length pkts = max 1 ((length (replicate 1000 (7::u8)) + 479) div 480)"
    using fragment_message_packets [OF _ _ _ m] by simp
  then have "length pkts = 3"
    by simp
  with m show ?thesis by blast
qed

text \<open>
  C25: No packet, however forged, makes \<open>reassemble_packet\<close> leave its buffers as long as the
  payload length of the header is within the packet: the bytes of the output buffer past
  \<open>max_out\<close> are untouched, the reported length is at most \<open>max_out\<close> and the declared total,
  nothing is written unless the result is \<open>true\<close>, and messages with other identifiers keep
  their fragments.
\<close>
theorem reassembly_is_safe:
  assumes "unat (payload_len (header p)) \<le> length (payload p)" and "max_out \<le> length buf" and "fm_ok fm"
  shows "\<exists>c fm' buf' ol'. reassemble_packet fm p now buf max_out ol = Inr (c, fm', buf', ol') \<and>
    fm_ok fm' \<and> length buf' = length buf \<and> drop max_out buf' = drop max_out buf \<and>
    (if c then ol' \<le> unat (total_len (frag_header_of p)) \<and> ol' \<le> max_out else buf' = buf \<and> ol' = ol) \<and>
    (\<forall>mid. mid \<noteq> msg_id (frag_header_of p) \<longrightarrow> m_find (partials fm') mid = m_find (partials fm) mid)"
  using assms by (rule reassemble_packet_safe)

theorem reassembly_is_safe_witness:
  "\<exists>c fm' buf' ol'. reassemble_packet new_fragment_manager
      (set_payload (init DATA (replicate 6 1) (replicate 6 2) 0) (replicate 100 9)) 0 (replicate 10 0) 10 0
    = Inr (c, fm', buf', ol') \<and> length buf' = 10"
proof -
  let ?p = "set_payload (init DATA (replicate 6 1) (replicate 6 2) 0) (replicate 100 9)"
  have "unat (payload_len (header ?p)) \<le> length (payload ?p)"
    by (simp add: MAX_PAYLOAD_SIZE_def unat_of_nat_u16)
  moreover have "10 \<le> length (replicate 10 (0::u8))" by simp
  ultimately show ?thesis
    using reassembly_is_safe [of ?p 10 "replicate 10 0" new_fragment_manager 0 0] fm_ok_new
    by (metis length_replicate)
qed

text \<open>Two packets of one message id that declare two fragments: the second completes the message.\<close>

lemma second_completes:
  assumes "payload_bytes p0 = frag_header_bytes \<lparr> msg_id = mid, frag_index = 0, frag_total = 2, total_len = tlen0 \<rparr> @ d0"
    and "payload_bytes p1 = frag_header_bytes \<lparr> msg_id = mid, frag_index = j, frag_total = 2, total_len = tlen \<rparr> @ d1"
    and "wf_packet p0" and "unat (payload_len (header p0)) \<le> MAX_PAYLOAD_SIZE"
    and "wf_packet p1" and "unat (payload_len (header p1)) \<le> MAX_PAYLOAD_SIZE"
    and "j \<noteq> 0" and "m_find (partials fm) mid = None" and "unat tlen \<le> max_out"
    and "copy_fragments [(0, d0), (j, d1)] (unat tlen) [0..<2] 0 buf = Inr (n, b)"
  shows "\<exists>fm' fm''. receive_all fm [(p0, t0)] buf max_out = Inr ([False], fm') \<and>
    reassemble_packet fm' p1 t1 buf max_out ol = Inr (True, fm'', b, n)"
proof -
  have hdr: "frag_header_of p = fh \<and> \<not> unat (payload_len (header p)) < FRAG_HEADER_SIZE \<and>
      drop FRAG_HEADER_SIZE (payload_bytes p) = d"
    if "payload_bytes p = frag_header_bytes fh @ d" for p fh d
  proof -
    have "6 \<le> unat (payload_len (header p))"
      using arg_cong [OF that, of length] by (simp add: payload_bytes_def)
    moreover from this have "frag_header_of p = frag_header_of_bytes (payload_bytes p)"
      by (simp add: frag_header_of_def FRAG_HEADER_SIZE_def frag_header_of_take payload_bytes_def)
    ultimately show ?thesis
      using that by (simp add: FRAG_HEADER_SIZE_def)
  qed
  note h0 = hdr [OF assms(1)] and h1 = hdr [OF assms(2)]
  have pl: "unat (payload_len (header p0)) \<le> length (payload p0)" "unat (payload_len (header p1)) \<le> length (payload p1)"
    using assms(3-6) by (simp_all add: wf_packet_def)
  let ?q0 = "with_fragment fm p0 t0"
  have q0: "fragments ?q0 = [(0, d0)]"
    using h0 assms(8) by (simp add: with_fragment_def partial_of_def empty_partial_def m_put_def)
  define fm' where "fm' = fm \<lparr> partials := m_put mid ?q0 (partials fm) \<rparr>"
  have one: "\<not> (2 :: u8) \<le> 1" "unat (2 :: u8) = 2"
    by (simp_all add: word_le_nat_alt)
  have first: "reassemble_packet fm p0 t0 buf max_out 0 = Inr (False, fm', buf, 0)"
    using h0 q0 one by (simp add: reassemble_packet_eq [OF pl(1)] Let_def fm'_def)
  have j: "(0 :: u8) < j"
    using assms(7) by (simp add: word_neq_0_conv)
  have "partial_of fm' mid = ?q0"
    by (simp add: fm'_def)
  then have "fragments (with_fragment fm' p1 t1) = m_put j d1 [(0, d0)]"
    using h1 q0 by (simp add: fragments_with_fragment)
  then have q1: "fragments (with_fragment fm' p1 t1) = [(0, d0), (j, d1)]"
    using j assms(7) by (simp add: m_put_def)
  have "reassemble_packet fm' p1 t1 buf max_out ol =
      Inr (True, fm' \<lparr> partials := m_erase mid (m_put mid (with_fragment fm' p1 t1) (partials fm')) \<rparr>, b, n)"
    using h1 q1 one assms(9,10) by (simp add: reassemble_packet_eq [OF pl(2)] Let_def)
  then show ?thesis
    using first by auto
qed

text \<open>
  Partial messages are kept by message id alone, and every node counts its ids from 1: the
  first fragment of one sender's message and the second of another's, under the same id,
  complete a message that is neither's.
\<close>

lemma senders_mix:
  assumes "payload_bytes p0 = frag_header_bytes \<lparr> msg_id = mid, frag_index = 0, frag_total = 2, total_len = tlen0 \<rparr> @ d0"
    and "payload_bytes p1 = frag_header_bytes \<lparr> msg_id = mid, frag_index = 1, frag_total = 2, total_len = tlen \<rparr> @ d1"
    and "wf_packet p0" and "unat (payload_len (header p0)) \<le> MAX_PAYLOAD_SIZE"
    and "wf_packet p1" and "unat (payload_len (header p1)) \<le> MAX_PAYLOAD_SIZE"
    and "source (header p0) \<noteq> source (header p1)" and "m_find (partials fm) mid = None"
    and "length d0 < unat tlen" and "length d0 + length d1 = unat tlen" and "unat tlen \<le> max_out" and "max_out \<le> length buf"
  shows "\<exists>fm' fm''. receive_all fm [(p0, t0)] buf max_out = Inr ([False], fm') \<and>
    reassemble_packet fm' p1 t1 buf max_out ol = Inr (True, fm'', overwrite buf 0 (d0 @ d1), unat tlen)"
proof -
  have find: "m_find [(0, d0), (1, d1)] (of_nat 0 :: u8) = Some d0" "m_find [(0, d0), (1, d1)] (of_nat 1 :: u8) = Some d1"
    by (simp_all add: m_find_def)
  have "overwrite (overwrite buf 0 d0) (length d0) d1 = overwrite buf 0 (d0 @ d1)"
    using overwrite_append [of 0 d0 d1 buf] assms(10-12) by simp
  then have "copy_fragments [(0, d0), (1, d1)] (unat tlen) [0..<2] 0 buf = Inr (unat tlen, overwrite buf 0 (d0 @ d1))"
    using find assms(9-12) by (simp add: upt_rec Let_def)
  from second_completes [OF assms(1-6) _ assms(8,11) this] show ?thesis
    by simp
qed

text \<open>
  C32: Completeness is decided by the number of distinct indices, not by which they are: a
  peer that declares two fragments and sends indices 0 and \<open>j\<close> beyond the total makes
  \<open>reassemble_packet\<close> report a complete message that holds only fragment 0, cut at the
  declared total.
\<close>
theorem phantom_fragment_completes:
  assumes "payload_bytes p0 = frag_header_bytes \<lparr> msg_id = mid, frag_index = 0, frag_total = 2, total_len = tlen \<rparr> @ d0"
    and "payload_bytes p1 = frag_header_bytes \<lparr> msg_id = mid, frag_index = j, frag_total = 2, total_len = tlen \<rparr> @ d1"
    and "wf_packet p0" and "unat (payload_len (header p0)) \<le> MAX_PAYLOAD_SIZE"
    and "wf_packet p1" and "unat (payload_len (header p1)) \<le> MAX_PAYLOAD_SIZE"
    and "2 \<le> j" and "fm_ok fm" and "m_find (partials fm) mid = None"
    and "unat tlen \<le> max_out" and "max_out \<le> length buf"
  shows "\<exists>fm' fm'' buf'. receive_all fm [(p0, t0)] buf max_out = Inr ([False], fm') \<and>
    reassemble_packet fm' p1 t1 buf max_out ol = Inr (True, fm'', buf', min (length d0) (unat tlen)) \<and>
    take (min (length d0) (unat tlen)) buf' = take (unat tlen) d0"
proof -
  let ?n = "min (length d0) (unat tlen)" and ?b = "overwrite buf 0 (take (unat tlen) d0)"
  have j: "j \<noteq> 0" "j \<noteq> 1"
    using assms(7) by (auto simp: word_le_nat_alt)
  have find: "m_find [(0, d0), (j, d1)] (of_nat 0) = Some d0" "m_find [(0, d0), (j, d1)] (of_nat 1) = None"
    using j by (simp_all add: m_find_def)
  have "copy_fragments [(0, d0), (j, d1)] (unat tlen) [0..<2] 0 buf = Inr (?n, ?b)"
  proof (cases "unat tlen = 0")
    case True
    then show ?thesis by (simp add: upt_rec)
  next
    case False
    then show ?thesis
      using find assms(10,11) by (cases "length d0 < unat tlen") (simp_all add: upt_rec Let_def min_def)
  qed
  from second_completes [OF assms(1-6) j(1) assms(9,10) this] show ?thesis
    by (fastforce simp: min_def)
qed

theorem phantom_fragment_completes_witness:
  "\<exists>fm' fm'' buf' p1. receive_all new_fragment_manager
      [(set_payload (init DATA (replicate 6 1) (replicate 6 2) 0)
          (frag_header_bytes \<lparr> msg_id = 9, frag_index = 0, frag_total = 2, total_len = 4 \<rparr> @ [7, 8]), 0)]
      (replicate 8 0) 8 = Inr ([False], fm') \<and>
    reassemble_packet fm' p1 1 (replicate 8 0) 8 0 = Inr (True, fm'', buf', 2)"
proof -
  let ?pkt = "\<lambda>b. set_payload (init DATA (replicate 6 1) (replicate 6 2) 0) b"
  let ?h = "\<lambda>i. frag_header_bytes \<lparr> msg_id = 9, frag_index = i, frag_total = 2, total_len = 4 \<rparr>"
  have wf: "wf_packet (?pkt (?h i @ d))" "payload_bytes (?pkt (?h i @ d)) = ?h i @ d"
      "unat (payload_len (header (?pkt (?h i @ d)))) \<le> MAX_PAYLOAD_SIZE" if "length d \<le> 2" for i d
  proof -
    have "length (?h i @ d) \<le> 8" using that by simp
    then show "wf_packet (?pkt (?h i @ d))" "payload_bytes (?pkt (?h i @ d)) = ?h i @ d"
      by (simp_all add: MAX_PAYLOAD_SIZE_def)
    have "unat (of_nat (length (?h i @ d)) :: u16) = length (?h i @ d)"
      by (rule unat_of_nat_u16) (use that in simp)
    then show "unat (payload_len (header (?pkt (?h i @ d)))) \<le> MAX_PAYLOAD_SIZE"
      using that by (simp only: header_set_payload) (simp add: MAX_PAYLOAD_SIZE_def)
  qed
  have none: "m_find (partials new_fragment_manager) 9 = None"
    by (simp add: new_fragment_manager_def)
  have "\<exists>fm' fm'' buf'. receive_all new_fragment_manager [(?pkt (?h 0 @ [7, 8]), 0)] (replicate 8 0) 8 = Inr ([False], fm') \<and>
      reassemble_packet fm' (?pkt (?h 5 @ [])) 1 (replicate 8 0) 8 0 =
        Inr (True, fm'', buf', min (length [7 :: u8, 8]) (unat (4 :: u16))) \<and>
      take (min (length [7 :: u8, 8]) (unat (4 :: u16))) buf' = take (unat (4 :: u16)) [7 :: u8, 8]"
    using wf [of "[7, 8]" 0] wf [of "[]" 5]
    by (intro phantom_fragment_completes [where mid = 9 and j = 5 and ?d0.0 = "[7, 8]" and ?d1.0 = "[]"] fm_ok_new none)
      (simp_all add: word_le_nat_alt)
  moreover have "min (length [7 :: u8, 8]) (unat (4 :: u16)) = 2"
    by simp
  ultimately show ?thesis
    by metis
qed

text \<open>
  C33: \<open>cleanup_stale\<close> drops exactly the incomplete messages whose last fragment is more than
  \<open>max_age_seconds\<close> whole seconds old, and keeps every other one, the identifier counter and
  the order of the map.
\<close>
theorem cleanup_drops_exactly_stale:
  assumes "fm_ok fm"
  shows "fm_ok (cleanup_stale fm now max_age) \<and> next_msg_id (cleanup_stale fm now max_age) = next_msg_id fm \<and>
    (m_find (partials (cleanup_stale fm now max_age)) mid = Some q \<longleftrightarrow>
      m_find (partials fm) mid = Some q \<and> whole_seconds (now - received q) \<le> uint max_age)"
  using fm_ok_cleanup [OF assms] m_find_cleanup [OF assms, of now max_age mid]
  by (auto simp: cleanup_stale_def not_less split: option.splits if_splits)

theorem cleanup_drops_exactly_stale_witness:
  "m_find (partials (cleanup_stale (new_fragment_manager \<lparr> partials := [(3, empty_partial)] \<rparr>) 61000000000 60)) 3 = None \<and>
   m_find (partials (cleanup_stale (new_fragment_manager \<lparr> partials := [(3, empty_partial)] \<rparr>) 60999999999 60)) 3 = Some empty_partial"
proof -
  let ?fm = "new_fragment_manager \<lparr> partials := [(3, empty_partial)] \<rparr>"
  have find: "m_find (partials ?fm) 3 = Some empty_partial"
    by (simp add: m_find_def)
  have ok: "fm_ok ?fm"
    by (auto simp: fm_ok_def m_ok_def m_find_def empty_partial_def split: if_splits)
  have "m_find (partials (cleanup_stale ?fm 61000000000 60)) 3 \<noteq> Some q" for q
    using cleanup_drops_exactly_stale [OF ok, of 61000000000 60 3 q] find
    by (auto simp: whole_seconds_def empty_partial_def)
  moreover have "m_find (partials (cleanup_stale ?fm 60999999999 60)) 3 = Some empty_partial"
    using cleanup_drops_exactly_stale [OF ok, of 60999999999 60 3 empty_partial] find
    by (simp add: whole_seconds_def empty_partial_def)
  ultimately show ?thesis by auto
qed

end
