(* ===== verification/Cbc.thy ===== *)
theory Cbc
  imports Aes
begin

text \<open>
  \<open>src/crypto.cpp\<close>, \<open>AES256::encrypt_cbc\<close> and \<open>decrypt_cbc\<close>: cipher block
  chaining in place.  The loops advance by 16 bytes while the offset is below the length
  they are given, whether or not a whole block is left; the data argument of the model is
  all the memory from the source's pointer to the end of the buffer it points into, and a
  block that would reach beyond it is the fault \<open>Out_of_bounds\<close>.

  The chaining is stated over an interface, the locale \<open>block_cipher\<close>, that asks of a
  cipher only that decryption inverts encryption on blocks; the AES of the source
  provides it.
\<close>

definition xor_block :: "bytes \<Rightarrow> bytes \<Rightarrow> bytes" where
  "xor_block a b = map2 (XOR) a b"

text \<open>
  The loop of \<open>encrypt_cbc\<close> with \<open>len\<close> bytes left, at the pointer whose memory is
  \<open>data\<close>, with the previous ciphertext block \<open>prev\<close>.
\<close>

function cbc_encrypt_loop :: "(bytes \<Rightarrow> bytes) \<Rightarrow> nat \<Rightarrow> bytes \<Rightarrow> bytes \<Rightarrow> fault + bytes" where
  "cbc_encrypt_loop E len data prev =
     (if len = 0 then Inr data
      else if length data < AES_BLOCK_SIZE then Inl Out_of_bounds
      else
        (let c = E (xor_block (take AES_BLOCK_SIZE data) prev)
         in case cbc_encrypt_loop E (len - AES_BLOCK_SIZE) (drop AES_BLOCK_SIZE data) c of
              Inl e \<Rightarrow> Inl e
            | Inr rest \<Rightarrow> Inr (c @ rest)))"
  by pat_completeness auto
termination
  by (relation "measure (\<lambda>(E, len, data, prev). len)") (auto simp: AES_BLOCK_SIZE_def)

function cbc_decrypt_loop :: "(bytes \<Rightarrow> bytes) \<Rightarrow> nat \<Rightarrow> bytes \<Rightarrow> bytes \<Rightarrow> fault + bytes" where
  "cbc_decrypt_loop D len data prev =
     (if len = 0 then Inr data
      else if length data < AES_BLOCK_SIZE then Inl Out_of_bounds
      else
        (let temp = take AES_BLOCK_SIZE data;
             p = xor_block (D temp) prev
         in case cbc_decrypt_loop D (len - AES_BLOCK_SIZE) (drop AES_BLOCK_SIZE data) temp of
              Inl e \<Rightarrow> Inl e
            | Inr rest \<Rightarrow> Inr (p @ rest)))"
  by pat_completeness auto
termination
  by (relation "measure (\<lambda>(D, len, data, prev). len)") (auto simp: AES_BLOCK_SIZE_def)

declare cbc_encrypt_loop.simps [simp del] cbc_decrypt_loop.simps [simp del]

definition encrypt_cbc :: "bytes \<Rightarrow> bytes \<Rightarrow> nat \<Rightarrow> bytes \<Rightarrow> fault + bytes" where
  "encrypt_cbc rk data data_len iv = cbc_encrypt_loop (encrypt_block rk) data_len data iv"

definition decrypt_cbc :: "bytes \<Rightarrow> bytes \<Rightarrow> nat \<Rightarrow> bytes \<Rightarrow> fault + bytes" where
  "decrypt_cbc rk data data_len iv = cbc_decrypt_loop (decrypt_block rk) data_len data iv"

section \<open>Blocks\<close>

lemma length_xor_block [simp, len_simps]: "length (xor_block a b) = min (length a) (length b)"
  by (simp add: xor_block_def)

lemma xor_block_cancel [simp]: "length a \<le> length b \<Longrightarrow> xor_block (xor_block a b) b = a"
  by (rule nth_equalityI) (simp_all add: xor_block_def)

text \<open>Memory behind the blocks takes no part in the chaining.\<close>

lemma cbc_encrypt_loop_tail:
  assumes "16 dvd len" and "len \<le> length data"
  shows "cbc_encrypt_loop E len (data @ r) prev = map_sum id (\<lambda>c. c @ r) (cbc_encrypt_loop E len data prev)"
  using assms
proof (induction E len data prev rule: cbc_encrypt_loop.induct)
  case (1 E len data prev)
  show ?case
  proof (cases "len = 0")
    case True
    then show ?thesis by (simp add: cbc_encrypt_loop.simps)
  next
    case False
    with "1.prems" have "16 \<le> len" "16 dvd len - 16"
      by (auto dest: dvd_imp_le)
    with "1" False show ?thesis
      by (simp add: cbc_encrypt_loop.simps [of E len] AES_BLOCK_SIZE_def Let_def split: sum.split)
  qed
qed

lemma cbc_decrypt_loop_tail:
  assumes "16 dvd len" and "len \<le> length data"
  shows "cbc_decrypt_loop D len (data @ r) prev = map_sum id (\<lambda>c. c @ r) (cbc_decrypt_loop D len data prev)"
  using assms
proof (induction D len data prev rule: cbc_decrypt_loop.induct)
  case (1 D len data prev)
  show ?case
  proof (cases "len = 0")
    case True
    then show ?thesis by (simp add: cbc_decrypt_loop.simps)
  next
    case False
    with "1.prems" have "16 \<le> len" "16 dvd len - 16"
      by (auto dest: dvd_imp_le)
    with "1" False show ?thesis
      by (simp add: cbc_decrypt_loop.simps [of D len] AES_BLOCK_SIZE_def Let_def split: sum.split)
  qed
qed

text \<open>Decryption of any length stays inside a buffer that holds a whole number of blocks.\<close>

lemma cbc_decrypt_loop_total:
  assumes "16 dvd length data" and "len \<le> length data" and "\<And>b. length b = 16 \<Longrightarrow> length (D b) = 16"
    and "length prev = 16"
  shows "\<exists>p. cbc_decrypt_loop D len data prev = Inr p \<and> length p = length data"
  using assms
proof (induction D len data prev rule: cbc_decrypt_loop.induct)
  case (1 D len data prev)
  show ?case
  proof (cases "len = 0")
    case True
    then show ?thesis by (simp add: cbc_decrypt_loop.simps)
  next
    case False
    with "1.prems" have d: "16 \<le> length data" "16 dvd length data - 16" "len - 16 \<le> length data - 16"
      by (auto dest: dvd_imp_le)
    have "\<exists>p. cbc_decrypt_loop D (len - 16) (drop 16 data) (take 16 data) = Inr p \<and>
        length p = length data - 16"
      using "1.IH" [OF False _ refl refl] "1.prems" d by (simp add: AES_BLOCK_SIZE_def)
    then obtain p where "cbc_decrypt_loop D (len - 16) (drop 16 data) (take 16 data) = Inr p"
        "length p = length data - 16"
      by blast
    with "1.prems" False d show ?thesis
      by (simp add: cbc_decrypt_loop.simps [of D len] AES_BLOCK_SIZE_def Let_def)
  qed
qed

section \<open>The chaining over any block cipher\<close>

locale block_cipher =
  fixes E D :: "bytes \<Rightarrow> bytes"
  assumes length_E: "length b = 16 \<Longrightarrow> length (E b) = 16"
    and length_D: "length b = 16 \<Longrightarrow> length (D b) = 16"
    and D_E: "length b = 16 \<Longrightarrow> D (E b) = b"
    and E_D: "length b = 16 \<Longrightarrow> E (D b) = b"
begin

lemma encrypt_loop_total:
  assumes "16 dvd len" and "len \<le> length data"
  shows "\<exists>c. cbc_encrypt_loop E len data prev = Inr c"
  using assms
proof (induction E len data prev rule: cbc_encrypt_loop.induct)
  case (1 E len data prev)
  show ?case
  proof (cases "len = 0")
    case True
    then show ?thesis by (simp add: cbc_encrypt_loop.simps)
  next
    case False
    with "1.prems" have "16 \<le> len" "16 dvd len - 16"
      by (auto dest: dvd_imp_le)
    with "1" False show ?thesis
      by (subst cbc_encrypt_loop.simps) (force simp: AES_BLOCK_SIZE_def Let_def)
  qed
qed

lemma decrypt_encrypt_loop:
  assumes "16 dvd len" and "len \<le> length data" and "length prev = 16"
    and "cbc_encrypt_loop E len data prev = Inr c"
  shows "cbc_decrypt_loop D len c prev = Inr data \<and> length c = length data \<and> drop len c = drop len data"
  using assms
proof (induction len arbitrary: data prev c rule: less_induct)
  case (less len)
  show ?case
  proof (cases "len = 0")
    case True
    with less.prems show ?thesis
      by (simp add: cbc_encrypt_loop.simps cbc_decrypt_loop.simps)
  next
    case False
    with less.prems have len: "16 \<le> len" "16 dvd len - 16"
      by (auto dest: dvd_imp_le)
    let ?b = "E (xor_block (take 16 data) prev)"
    obtain rest where rest: "cbc_encrypt_loop E (len - 16) (drop 16 data) ?b = Inr rest" "c = ?b @ rest"
      using less.prems len
      by (subst (asm) cbc_encrypt_loop.simps) (auto simp: AES_BLOCK_SIZE_def Let_def split: sum.splits)
    have b: "length ?b = 16" "D ?b = xor_block (take 16 data) prev"
      using less.prems len by (simp_all add: length_E D_E)
    have IH: "cbc_decrypt_loop D (len - 16) rest ?b = Inr (drop 16 data)"
        "length rest = length data - 16" "drop (len - 16) rest = drop len data"
      using less.IH [of "len - 16" "drop 16 data" ?b rest] less.prems len b rest by auto
    have "cbc_decrypt_loop D len c prev = Inr (take 16 data @ drop 16 data)"
      using b IH rest less.prems len
      by (subst cbc_decrypt_loop.simps) (simp add: AES_BLOCK_SIZE_def Let_def)
    then show ?thesis
      using b IH rest less.prems len by simp
  qed
qed

end

interpretation aes: block_cipher "encrypt_block rk" "decrypt_block rk" for rk
  by unfold_locales simp_all

section \<open>Properties\<close>

text \<open>
  C7: On a whole number of blocks inside the buffer, \<open>encrypt_cbc\<close> never leaves the
  buffer, keeps the bytes after \<open>data_len\<close>, and \<open>decrypt_cbc\<close> with the same key
  memory and initialisation vector restores the data exactly.
\<close>
theorem cbc_round_trip:
  assumes "16 dvd data_len" and "data_len \<le> length data" and "length iv = 16"
  shows "\<exists>c. encrypt_cbc rk data data_len iv = Inr c \<and> length c = length data \<and>
    drop data_len c = drop data_len data \<and> decrypt_cbc rk c data_len iv = Inr data"
proof -
  obtain c where "cbc_encrypt_loop (encrypt_block rk) data_len data iv = Inr c"
    using aes.encrypt_loop_total [OF assms(1,2)] by blast
  then show ?thesis
    using aes.decrypt_encrypt_loop [OF assms] by (auto simp: encrypt_cbc_def decrypt_cbc_def)
qed

theorem cbc_round_trip_witness:
  "\<exists>c. encrypt_cbc (replicate 240 1) (replicate 40 5) 32 (replicate 16 9) = Inr c \<and>
    decrypt_cbc (replicate 240 1) c 32 (replicate 16 9) = Inr (replicate 40 5)"
  using cbc_round_trip [of 32 "replicate 40 5" "replicate 16 9" "replicate 240 1"] by auto

end
