(* ===== verification/Keys.thy ===== *)
theory Keys
  imports Aes
begin

text \<open>
  \<open>src/crypto.cpp\<close>, the free functions: \<open>derive_key\<close> (passphrase to base key),
  \<open>derive_pair_key\<close> (base key and two addresses to the key of a pair) and
  \<open>generate_iv\<close> (clock reading to initialisation vector), with \<open>std::memcmp\<close> as they
  use it.  The arithmetic of the source on promoted integers is truncated to a byte at
  every store, so it is arithmetic on bytes here.
\<close>

section \<open>Operations\<close>

text \<open>The sign of \<open>std::memcmp\<close> on two buffers of equal length.\<close>

fun memcmp :: "bytes \<Rightarrow> bytes \<Rightarrow> int" where
  "memcmp (a # as) (b # bs) = (if a = b then memcmp as bs else if a < b then - 1 else 1)"
| "memcmp _ _ = 0"

text \<open>The characters up to the first NUL: what \<open>strlen\<close> measures.\<close>

definition c_string :: "string \<Rightarrow> string" where
  "c_string s = takeWhile (\<lambda>c. c \<noteq> CHR 0x00) s"

definition derive_key :: "string \<Rightarrow> fault + bytes" where
  "derive_key passphrase =
     (let p = c_string passphrase;
          len = length p
      in if len = 0 then Inl Division_by_zero
         else Inr (map (\<lambda>i. (char_byte (p ! (i mod len)) * 31 + of_nat i) XOR 0x5A) [0..<AES_KEY_SIZE]))"

definition derive_pair_key :: "mac \<Rightarrow> mac \<Rightarrow> bytes \<Rightarrow> bytes" where
  "derive_pair_key mac_a mac_b base_key =
     (let (first, second) = (if 0 < memcmp mac_a mac_b then (mac_b, mac_a) else (mac_a, mac_b));
          out_key = fold (\<lambda>i out. out[i := out ! i XOR first ! i,
                                      i + 16 := out ! (i + 16) XOR second ! i]) [0..<6] base_key
      in map (\<lambda>i. (out_key ! i * 17 + of_nat i) XOR 0xA5) [0..<AES_KEY_SIZE])"

text \<open>\<open>now\<close> is the tick count of the steady clock, a signed 64-bit integer.\<close>

definition generate_iv :: "u64 \<Rightarrow> bytes" where
  "generate_iv now = map (\<lambda>i. ucast (signed_drop_bit (i * 4) now AND 0xFF)) [0..<AES_BLOCK_SIZE]"

section \<open>Lemmas\<close>

lemma memcmp_eq_0: "length a = length b \<Longrightarrow> memcmp a b = 0 \<longleftrightarrow> a = b"
  by (induction a b rule: memcmp.induct) auto

lemma memcmp_neg: "length a = length b \<Longrightarrow> memcmp b a = - memcmp a b"
  by (induction a b rule: memcmp.induct) auto

lemma length_derive_pair_key [simp, len_simps]: "length (derive_pair_key a b k) = 32"
  by (simp add: derive_pair_key_def aes_sizes Let_def split: prod.splits)

lemma length_derive_key: "derive_key s = Inr k \<Longrightarrow> length k = 32"
  by (auto simp: derive_key_def aes_sizes Let_def split: if_splits)

lemma length_generate_iv [simp, len_simps]: "length (generate_iv t) = 16"
  by (simp add: generate_iv_def aes_sizes)

text \<open>Multiplication of a byte by an odd constant loses nothing.\<close>

lemma mult_17_inj: "(x :: u8) * 17 = y * 17 \<longleftrightarrow> x = y"
proof
  assume "x * 17 = y * 17"
  then have "x * 17 * 241 = y * 17 * 241" by simp
  moreover have "(17 * 241 :: u8) = 1" by code_simp
  ultimately show "x = y" by (simp only: mult.assoc mult_1_right)
qed simp

lemma mult_31_inj: "(x :: u8) * 31 = y * 31 \<longleftrightarrow> x = y"
proof
  assume "x * 31 = y * 31"
  then have "x * 31 * 223 = y * 31 * 223" by simp
  moreover have "(31 * 223 :: u8) = 1" by code_simp
  ultimately show "x = y" by (simp only: mult.assoc mult_1_right)
qed simp

section \<open>Pair keys\<close>

text \<open>The two addresses in the order the source mixes them in, and the mixed key.\<close>

definition ordered_pair :: "mac \<Rightarrow> mac \<Rightarrow> mac \<times> mac" where
  "ordered_pair a b = (if 0 < memcmp a b then (b, a) else (a, b))"

definition mix_macs :: "bytes \<Rightarrow> mac \<times> mac \<Rightarrow> bytes" where
  "mix_macs base fs = fold (\<lambda>i out. out[i := out ! i XOR fst fs ! i,
      i + 16 := out ! (i + 16) XOR snd fs ! i]) [0..<6] base"

lemma derive_pair_key_eq:
  "derive_pair_key a b base =
    map (\<lambda>i. (mix_macs base (ordered_pair a b) ! i * 17 + of_nat i) XOR 0xA5) [0..<32]"
  by (simp add: derive_pair_key_def ordered_pair_def mix_macs_def aes_sizes Let_def)

lemma ordered_pair_commute:
  "length a = 6 \<Longrightarrow> length b = 6 \<Longrightarrow> ordered_pair a b = ordered_pair b a"
  using memcmp_neg [of a b] memcmp_eq_0 [of a b] by (auto simp: ordered_pair_def)

lemma ordered_pair_cases: "ordered_pair a b = (a, b) \<or> ordered_pair a b = (b, a)"
  by (simp add: ordered_pair_def)

lemma ordered_pair_eq_iff:
  assumes "length a = 6" "length b = 6" "length c = 6" "length d = 6"
  shows "ordered_pair a b = ordered_pair c d \<longleftrightarrow> {a, b} = {c, d}"
proof
  assume "ordered_pair a b = ordered_pair c d"
  then show "{a, b} = {c, d}"
    using ordered_pair_cases [of a b] ordered_pair_cases [of c d] by auto
next
  assume "{a, b} = {c, d}"
  then show "ordered_pair a b = ordered_pair c d"
    using ordered_pair_commute [of a b] assms by (auto simp: doubleton_eq_iff)
qed

lemma mix_macs_nth:
  assumes "length base = 32" "i < 6"
  shows "mix_macs base fs ! i = base ! i XOR fst fs ! i"
    and "mix_macs base fs ! (i + 16) = base ! (i + 16) XOR snd fs ! i"
proof -
  have upt: "[0..<6] = [0, 1, 2, 3, 4, 5 :: nat]" by code_simp
  have "i = 0 \<or> i = 1 \<or> i = 2 \<or> i = 3 \<or> i = 4 \<or> i = 5" using assms(2) by arith
  then show "mix_macs base fs ! i = base ! i XOR fst fs ! i"
    and "mix_macs base fs ! (i + 16) = base ! (i + 16) XOR snd fs ! i"
    using assms(1) by (auto simp: mix_macs_def upt nth_list_update)
qed

lemma mix_macs_inj:
  assumes "length base = 32" and "mix_macs base (f, s) = mix_macs base (f', s')"
    and "length f = 6" "length s = 6" "length f' = 6" "length s' = 6"
  shows "f = f' \<and> s = s'"
proof -
  have "f ! i = f' ! i" "s ! i = s' ! i" if "i < 6" for i
    using mix_macs_nth [OF assms(1) that, of "(f, s)"] mix_macs_nth [OF assms(1) that, of "(f', s')"]
      assms(2) by (simp_all, metis xor_cancel(2))+
  then show ?thesis
    using assms(3-) by (auto intro: nth_equalityI)
qed

text \<open>The last loop of \<open>derive_pair_key\<close> transforms each byte reversibly.\<close>

lemma scramble_inj:
  assumes "map (\<lambda>i. (x ! i * 17 + of_nat i) XOR 0xA5) [0..<32] =
      map (\<lambda>i. (y ! i * 17 + of_nat i) XOR (0xA5 :: u8)) [0..<32]"
    and "length x = 32" "length y = 32"
  shows "x = y"
proof (rule nth_equalityI)
  fix i assume "i < length x"
  then have "(x ! i * 17 + of_nat i) XOR 0xA5 = (y ! i * 17 + of_nat i) XOR (0xA5 :: u8)"
    using assms by (auto simp: list_eq_iff_nth_eq)
  then show "x ! i = y ! i"
    by (simp add: xor_inj mult_17_inj)
qed (simp add: assms)

lemma length_mix_macs [simp]: "length (mix_macs base fs) = length base"
  by (simp add: mix_macs_def eval_nat_numeral)

lemma derive_pair_key_eq_iff:
  assumes "length a = 6" "length b = 6" "length c = 6" "length d = 6" "length base = 32"
  shows "derive_pair_key a b base = derive_pair_key c d base \<longleftrightarrow> {a, b} = {c, d}"
proof -
  let ?x = "mix_macs base (ordered_pair a b)" and ?y = "mix_macs base (ordered_pair c d)"
  have "derive_pair_key a b base = derive_pair_key c d base \<longleftrightarrow> ?x = ?y"
    using scramble_inj [of ?x ?y] assms(5) by (auto simp only: derive_pair_key_eq length_mix_macs)
  also have "\<dots> \<longleftrightarrow> ordered_pair a b = ordered_pair c d"
    using assms ordered_pair_cases [of a b] ordered_pair_cases [of c d]
    by (cases "ordered_pair a b"; cases "ordered_pair c d")
      (auto dest!: mix_macs_inj [OF assms(5)])
  finally show ?thesis
    using ordered_pair_eq_iff [OF assms(1-4)] by simp
qed

section \<open>The base key and the initialisation vector\<close>

lemma derive_key_nonempty:
  "c_string s \<noteq> [] \<Longrightarrow> derive_key s =
    Inr (map (\<lambda>i. (char_byte (c_string s ! (i mod length (c_string s))) * 31 + of_nat i) XOR 0x5A) [0..<32])"
  by (simp add: derive_key_def AES_KEY_SIZE_def Let_def)

lemma derive_key_eq_iff:
  assumes "c_string s \<noteq> []" and "c_string t \<noteq> []"
  shows "derive_key s = derive_key t \<longleftrightarrow>
    (\<forall>i < 32. c_string s ! (i mod length (c_string s)) = c_string t ! (i mod length (c_string t)))"
  using assms by (auto simp: derive_key_nonempty xor_inj mult_31_inj char_byte_inj)

lemma bit_generate_iv:
  assumes "k < 8" and "j < 8"
  shows "bit (generate_iv now ! (2 * k)) j \<longleftrightarrow> bit now (8 * k + j)"
proof -
  have mask: "(0xFF :: u64) = mask 8" by (simp add: mask_eq_exp_minus_1)
  have low: "w AND 0xFF = take_bit 8 w" for w :: u64
    by (simp only: mask take_bit_eq_mask)
  have "generate_iv now ! (2 * k) = ucast (take_bit 8 (signed_drop_bit (8 * k) now))"
    using assms by (simp add: generate_iv_def AES_BLOCK_SIZE_def low mult.commute)
  then show ?thesis
    using assms by (auto simp: bit_simps)
qed

lemma generate_iv_inj: "generate_iv t = generate_iv t' \<longleftrightarrow> t = t'"
proof
  assume eq: "generate_iv t = generate_iv t'"
  show "t = t'"
  proof (rule bit_word_eqI)
    fix n assume "n < LENGTH(64)"
    then have "n div 8 < 8" "n mod 8 < 8" "n = 8 * (n div 8) + n mod 8"
      by (simp_all add: less_mult_imp_div_less)
    then show "bit t n \<longleftrightarrow> bit t' n"
      using eq by (metis bit_generate_iv)
  qed
qed simp

section \<open>Properties\<close>

text \<open>
  C27: Two nodes derive the same pair key whatever the order of the addresses, and under one
  base key different unordered pairs of addresses get different keys.
\<close>
theorem pair_key_identifies_pair:
  assumes "length a = 6" and "length b = 6" and "length c = 6" and "length d = 6"
    and "length base = AES_KEY_SIZE"
  shows "derive_pair_key a b base = derive_pair_key b a base \<and>
    (derive_pair_key a b base = derive_pair_key c d base \<longleftrightarrow> {a, b} = {c, d})"
  using assms derive_pair_key_eq_iff [of a b b a base] derive_pair_key_eq_iff [of a b c d base]
  by (simp add: AES_KEY_SIZE_def insert_commute)

theorem pair_key_identifies_pair_witness:
  "derive_pair_key (replicate 6 1) (replicate 6 2) (replicate 32 0) \<noteq>
    derive_pair_key (replicate 6 1) (replicate 6 3) (replicate 32 0)"
proof -
  have ne: "{replicate 6 1, replicate 6 2} \<noteq> {replicate 6 1, replicate 6 (3 :: u8)}"
    by (simp add: doubleton_eq_iff)
  have "derive_pair_key (replicate 6 1) (replicate 6 2) (replicate 32 0) =
      derive_pair_key (replicate 6 1) (replicate 6 3) (replicate 32 0) \<longleftrightarrow>
      {replicate 6 1, replicate 6 2} = {replicate 6 1, replicate 6 (3 :: u8)}"
    by (rule conjunct2 [OF pair_key_identifies_pair]) (simp_all add: AES_KEY_SIZE_def)
  with ne show ?thesis by blast
qed

text \<open>
  C34: An empty passphrase divides by zero; otherwise the base key is 32 bytes, and two
  passphrases give the same key exactly when their endless repetitions agree on the first 32
  characters.
\<close>
theorem base_key_from_passphrase:
  "(c_string s = [] \<longrightarrow> derive_key s = Inl Division_by_zero) \<and>
   (c_string s \<noteq> [] \<longrightarrow> (\<exists>k. derive_key s = Inr k \<and> length k = AES_KEY_SIZE)) \<and>
   (c_string s \<noteq> [] \<longrightarrow> c_string t \<noteq> [] \<longrightarrow>
     (derive_key s = derive_key t \<longleftrightarrow>
       (\<forall>i < 32. c_string s ! (i mod length (c_string s)) = c_string t ! (i mod length (c_string t)))))"
proof (intro conjI impI)
  assume "c_string s = []"
  then show "derive_key s = Inl Division_by_zero"
    by (simp add: derive_key_def)
next
  assume "c_string s \<noteq> []"
  then show "\<exists>k. derive_key s = Inr k \<and> length k = AES_KEY_SIZE"
    by (simp add: derive_key_nonempty AES_KEY_SIZE_def)
next
  assume "c_string s \<noteq> []" and "c_string t \<noteq> []"
  then show "derive_key s = derive_key t \<longleftrightarrow>
      (\<forall>i < 32. c_string s ! (i mod length (c_string s)) = c_string t ! (i mod length (c_string t)))"
    by (rule derive_key_eq_iff)
qed

theorem base_key_from_passphrase_witness:
  "derive_key ''ab'' = derive_key ''abab''"
proof -
  have "c_string ''ab'' = ''ab''" "c_string ''abab'' = ''abab''"
    by (simp_all add: c_string_def)
  moreover have "''ab'' ! (i mod 2) = ''abab'' ! (i mod 4)" for i
  proof -
    have "i mod 4 = 0 \<or> i mod 4 = 1 \<or> i mod 4 = 2 \<or> i mod 4 = 3"
      by arith
    moreover have "i mod 2 = (i mod 4) mod 2"
      by (simp add: mod_mod_cancel)
    ultimately show ?thesis by auto
  qed
  ultimately show ?thesis
    using base_key_from_passphrase [of "''ab''" "''abab''"] by (simp flip: numeral_2_eq_2)
qed

text \<open>
  The initialisation vector has 16 bytes and determines the clock reading it was made
  from: two vectors are equal only when the steady clock showed the same tick.
\<close>
theorem iv_determines_clock:
  "length (generate_iv t) = AES_BLOCK_SIZE \<and> (generate_iv t = generate_iv t' \<longleftrightarrow> t = t')"
  by (simp add: generate_iv_inj AES_BLOCK_SIZE_def)

end
