(* ===== verification/Payload.thy ===== *)
theory Payload
  imports Cbc Keys
begin

text \<open>
  \<open>src/araba_node.cpp\<close>, the payload codec: \<open>pad_data\<close>, \<open>unpad_data\<close>,
  \<open>encrypt_payload\<close> and \<open>decrypt_payload\<close>.

  The two local buffers of 1024 bytes are explicit: what they held before is the argument
  \<open>stack\<close>, and a copy that would run past their end is \<open>Out_of_bounds\<close>.  The result
  of the two payload functions is the list of bytes they produce; its length is the value
  the source returns, so \<open>[]\<close> is the source's error value 0.
\<close>

definition LOCAL_BUFFER :: nat where "LOCAL_BUFFER = 1024"

section \<open>Operations\<close>

text \<open>
  \<open>pad_data(input, len, output, max_out)\<close> with \<open>len\<close> the length of the input: the bytes
  it leaves in \<open>output[0 .. padded_len)\<close>.
\<close>

definition pad_data :: "bytes \<Rightarrow> nat \<Rightarrow> fault + bytes" where
  "pad_data input max_out =
     (let len = length input;
          padded_len = ((len + AES_BLOCK_SIZE) div AES_BLOCK_SIZE) * AES_BLOCK_SIZE;
          padded_len = (if padded_len > max_out then max_out else padded_len)
      in if len > max_out then Inl Out_of_bounds
         else Inr (input @ replicate (padded_len - len) (of_nat (padded_len - len))))"

definition unpad_data :: "bytes \<Rightarrow> nat \<Rightarrow> nat \<Rightarrow> bytes" where
  "unpad_data input len max_out =
     (if len = 0 \<or> len mod AES_BLOCK_SIZE \<noteq> 0 then []
      else
        (let pad_byte = input ! (len - 1)
         in if unat pad_byte > AES_BLOCK_SIZE \<or> pad_byte = 0 then []
            else (let out_len = len - unat pad_byte;
                      out_len = (if out_len > max_out then max_out else out_len)
                  in take out_len input)))"

text \<open>
  \<open>out\<close> is the caller's output buffer, of capacity \<open>max_out\<close>; \<open>now\<close> the clock
  reading \<open>generate_iv\<close> takes.
\<close>

definition encrypt_payload :: "bytes \<Rightarrow> u64 \<Rightarrow> bytes \<Rightarrow> bytes \<Rightarrow> fault + bytes" where
  "encrypt_payload rk now plaintext out =
     (let iv = generate_iv now
      in if length out < AES_BLOCK_SIZE then Inl Out_of_bounds
         else
           (case pad_data plaintext LOCAL_BUFFER of
              Inl e \<Rightarrow> Inl e
            | Inr padded \<Rightarrow>
                if length padded + AES_BLOCK_SIZE > length out then Inr []
                else
                  (let out = overwrite (overwrite out 0 iv) AES_BLOCK_SIZE padded
                   in case encrypt_cbc rk (drop AES_BLOCK_SIZE out) (length padded) iv of
                        Inl e \<Rightarrow> Inl e
                      | Inr c \<Rightarrow> Inr (take (AES_BLOCK_SIZE + length padded) (take AES_BLOCK_SIZE out @ c)))))"

definition decrypt_payload :: "bytes \<Rightarrow> bytes \<Rightarrow> bytes \<Rightarrow> nat \<Rightarrow> nat \<Rightarrow> fault + bytes" where
  "decrypt_payload rk stack encrypted enc_len max_out =
     (if enc_len < AES_BLOCK_SIZE + AES_BLOCK_SIZE then Inr []
      else if enc_len > length encrypted then Inl Out_of_bounds
      else
        (let iv = take AES_BLOCK_SIZE encrypted;
             cipher_len = enc_len - AES_BLOCK_SIZE
         in if cipher_len > LOCAL_BUFFER then Inl Out_of_bounds
            else
              (let decrypted = overwrite stack 0 (take cipher_len (drop AES_BLOCK_SIZE encrypted))
               in case decrypt_cbc rk decrypted cipher_len iv of
                    Inl e \<Rightarrow> Inl e
                  | Inr d \<Rightarrow> Inr (unpad_data d cipher_len max_out))))"

section \<open>Padding\<close>

lemma padded_length:
  fixes len :: nat
  defines "p \<equiv> ((len + 16) div 16) * 16"
  shows "len < p" "p \<le> len + 16" "16 dvd p"
  unfolding p_def by presburger+

text \<open>The inputs whose padding fits a buffer of \<open>max_out\<close> bytes.\<close>

definition pad_fits :: "nat \<Rightarrow> bytes \<Rightarrow> bool" where
  "pad_fits max_out x \<longleftrightarrow> ((length x + 16) div 16) * 16 \<le> max_out"

lemma pad_data_eq:
  "pad_fits max_out x \<Longrightarrow> pad_data x max_out =
    (let n = ((length x + 16) div 16) * 16 - length x in Inr (x @ replicate n (of_nat n)))"
  using padded_length(1) [of "length x"]
  by (auto simp: pad_data_def pad_fits_def AES_BLOCK_SIZE_def Let_def)

lemma unpad_padded:
  assumes "16 dvd length x + n" and "1 \<le> n" and "n \<le> 16" and "length x \<le> max_out"
  shows "unpad_data (x @ replicate n (of_nat n) @ r) (length x + n) max_out = x"
proof -
  have last: "(x @ replicate n (of_nat n) @ r) ! (length x + n - Suc 0) = (of_nat n :: u8)"
  proof -
    have "length x + n - Suc 0 = length x + (n - 1)"
      using assms(2) by simp
    then show ?thesis
      using assms(2) by (simp only: nth_append_length_plus) (simp add: nth_append)
  qed
  have n: "unat (of_nat n :: u8) = n"
    using assms(3) by (simp add: unat_of_nat take_bit_nat_eq_self)
  then have "(of_nat n :: u8) \<noteq> 0"
    using assms(2) by (metis not_one_le_zero unsigned_0)
  then show ?thesis
    using assms n by (simp add: unpad_data_def last Let_def AES_BLOCK_SIZE_def mod_eq_0_iff_dvd)
qed

section \<open>Sealing over any cipher and padding\<close>

text \<open>
  What the payload codec needs of a padding: it produces whole blocks and can be taken off
  again, whatever lies in memory behind the padded text.
\<close>

locale padding =
  fixes pad :: "bytes \<Rightarrow> fault + bytes" and unpad :: "bytes \<Rightarrow> nat \<Rightarrow> bytes"
    and fits :: "bytes \<Rightarrow> bool"
  assumes pad_fits: "fits x \<Longrightarrow> \<exists>p. pad x = Inr p"
    and pad_blocks: "fits x \<Longrightarrow> pad x = Inr p \<Longrightarrow> 16 dvd length p"
    and unpad_pad: "fits x \<Longrightarrow> pad x = Inr p \<Longrightarrow> unpad (p @ r) (length p) = x"

locale sealed_text = block_cipher E D + padding pad unpad fits
  for E D :: "bytes \<Rightarrow> bytes" and pad unpad fits
begin

lemma open_sealed:
  assumes "fits x" and "pad x = Inr p" and "length iv = 16"
  shows "\<exists>c. cbc_encrypt_loop E (length p) (p @ r) iv = Inr (c @ r) \<and> length c = length p \<and>
    (\<exists>q. cbc_decrypt_loop D (length p) (c @ r') iv = Inr q \<and> unpad q (length p) = x)"
proof -
  have dvd: "16 dvd length p"
    using assms(1,2) by (rule pad_blocks)
  obtain c where c: "cbc_encrypt_loop E (length p) p iv = Inr c"
    using encrypt_loop_total [OF dvd order_refl] by blast
  have d: "cbc_decrypt_loop D (length p) c iv = Inr p" "length c = length p"
    using decrypt_encrypt_loop [OF dvd order_refl assms(3) c] by auto
  have "cbc_encrypt_loop E (length p) (p @ r) iv = Inr (c @ r)"
    using c by (simp add: cbc_encrypt_loop_tail [OF dvd order_refl])
  moreover have "cbc_decrypt_loop D (length p) (c @ r') iv = Inr (p @ r')"
    using d by (simp add: cbc_decrypt_loop_tail [OF dvd])
  ultimately show ?thesis
    using d unpad_pad [OF assms(1,2)] by auto
qed

end

interpretation pkcs: padding "\<lambda>x. pad_data x max_in" "\<lambda>b n. unpad_data b n max_out"
  "\<lambda>x. pad_fits max_in x \<and> length x \<le> max_out" for max_in max_out
proof
  fix x p r
  assume x: "pad_fits max_in x \<and> length x \<le> max_out"
  then show "\<exists>p. pad_data x max_in = Inr p"
    by (simp add: pad_data_eq Let_def)
  assume "pad_data x max_in = Inr p"
  moreover define n where "n = ((length x + 16) div 16) * 16 - length x"
  ultimately have p: "p = x @ replicate n (of_nat n)"
    using x by (simp add: pad_data_eq Let_def)
  have n: "1 \<le> n" "n \<le> 16" "16 dvd length x + n"
    using padded_length [of "length x"] by (simp_all add: n_def)
  then show "16 dvd length p"
    by (simp add: p)
  show "unpad_data (p @ r) (length p) max_out = x"
    using unpad_padded [OF n(3,1,2)] x by (simp add: p)
qed

interpretation channel: sealed_text "encrypt_block rk" "decrypt_block rk"
  "\<lambda>x. pad_data x max_in" "\<lambda>b n. unpad_data b n max_out"
  "\<lambda>x. pad_fits max_in x \<and> length x \<le> max_out" for rk max_in max_out
  by unfold_locales

section \<open>The payload functions\<close>

text \<open>What \<open>encrypt_payload\<close> puts into the output buffer when the text fits.\<close>

lemma encrypt_payload_fits:
  assumes "pad_fits LOCAL_BUFFER x" and "length out = LOCAL_BUFFER"
    and "pad_data x LOCAL_BUFFER = Inr p" and "length p + 16 \<le> LOCAL_BUFFER"
    and "cbc_encrypt_loop (encrypt_block rk) (length p) (p @ drop (16 + length p) out) (generate_iv now)
      = Inr (c @ drop (16 + length p) out)" and "length c = length p"
  shows "encrypt_payload rk now x out = Inr (generate_iv now @ c)"
proof -
  have mem: "overwrite (overwrite out 0 (generate_iv now)) 16 p =
      generate_iv now @ p @ drop (16 + length p) out"
    using assms(2,4) by (simp add: overwrite_def LOCAL_BUFFER_def add.commute)
  show ?thesis
    using assms by (simp add: encrypt_payload_def AES_BLOCK_SIZE_def mem encrypt_cbc_def Let_def
        LOCAL_BUFFER_def)
qed

lemma decrypt_payload_fits:
  assumes "length iv = 16" and "1 \<le> length c" and "16 \<le> length c" and "length c \<le> LOCAL_BUFFER"
    and "cbc_decrypt_loop (decrypt_block rk) (length c) (c @ drop (length c) stack) iv = Inr q"
  shows "decrypt_payload rk stack (iv @ c @ r) (16 + length c) max_out = Inr (unpad_data q (length c) max_out)"
  using assms
  by (simp add: decrypt_payload_def AES_BLOCK_SIZE_def overwrite_0 decrypt_cbc_def Let_def)

lemma payload_codec:
  assumes "length x \<le> 1007" and "length out = LOCAL_BUFFER" and "length x \<le> max_out"
  shows "\<exists>e. encrypt_payload rk now x out = Inr e \<and>
    take 16 e = generate_iv now \<and> length e = 16 + ((length x + 16) div 16) * 16 \<and>
    (\<forall>stack r. decrypt_payload rk stack (e @ r) (length e) max_out = Inr x)"
proof -
  have fits: "pad_fits LOCAL_BUFFER x \<and> length x \<le> max_out"
    using assms by (simp add: pad_fits_def LOCAL_BUFFER_def)
  obtain p where p: "pad_data x LOCAL_BUFFER = Inr p"
    using pkcs.pad_fits [OF fits] by blast
  then have len: "length p = ((length x + 16) div 16) * 16"
    using fits padded_length(1) [of "length x"] by (auto simp: pad_data_eq Let_def)
  then have bounds: "16 \<le> length p" "length p + 16 \<le> 1024"
    using assms(1) padded_length(1) [of "length x"] by simp_all
  have "\<exists>c. cbc_encrypt_loop (encrypt_block rk) (length p) (p @ r) (generate_iv now) = Inr (c @ r) \<and>
      length c = length p \<and>
      (\<exists>q. cbc_decrypt_loop (decrypt_block rk) (length p) (c @ r') (generate_iv now) = Inr q \<and>
        unpad_data q (length p) max_out = x)" for r r'
    by (rule channel.open_sealed [OF fits p]) simp
  then obtain c where c: "cbc_encrypt_loop (encrypt_block rk) (length p) p (generate_iv now) = Inr c"
      "length c = length p"
    by (metis append_Nil2)
  have tail: "cbc_encrypt_loop (encrypt_block rk) (length p) (p @ r) (generate_iv now) = Inr (c @ r)" for r
    using c pkcs.pad_blocks [OF fits p] by (simp add: cbc_encrypt_loop_tail)
  have dec: "\<exists>q. cbc_decrypt_loop (decrypt_block rk) (length c) (c @ r') (generate_iv now) = Inr q \<and>
        unpad_data q (length c) max_out = x" for r'
    using channel.open_sealed [OF fits p, of "generate_iv now" rk "[]" r'] tail [of "[]"] c by auto
  have "encrypt_payload rk now x out = Inr (generate_iv now @ c)"
    using fits assms(2) p bounds tail c(2) by (intro encrypt_payload_fits) (simp_all add: LOCAL_BUFFER_def)
  moreover have "decrypt_payload rk stack (generate_iv now @ c @ r) (16 + length c) max_out = Inr x" for stack r
    using dec [of "drop (length c) stack"] bounds c(2) decrypt_payload_fits [of "generate_iv now" c rk stack]
    by (auto simp: LOCAL_BUFFER_def)
  ultimately show ?thesis
    using c(2) len by auto
qed

lemma encrypt_payload_rejects:
  assumes "1008 \<le> length x" and "length x \<le> LOCAL_BUFFER" and "length out = LOCAL_BUFFER"
  shows "encrypt_payload rk now x out = Inr []"
proof -
  have "((length x + 16) div 16) * 16 \<ge> 1024"
    using assms(1) by presburger
  then have "\<exists>p. pad_data x LOCAL_BUFFER = Inr p \<and> length p = 1024"
    using assms(2) by (auto simp: pad_data_def AES_BLOCK_SIZE_def LOCAL_BUFFER_def Let_def)
  then show ?thesis
    using assms(3) by (auto simp: encrypt_payload_def AES_BLOCK_SIZE_def LOCAL_BUFFER_def Let_def)
qed

lemma encrypt_payload_overflows:
  assumes "LOCAL_BUFFER < length x" and "length out = LOCAL_BUFFER"
  shows "encrypt_payload rk now x out = Inl Out_of_bounds"
  using assms
  by (simp add: encrypt_payload_def pad_data_def AES_BLOCK_SIZE_def LOCAL_BUFFER_def Let_def)

lemma length_unpad_data: "length (unpad_data d len max_out) \<le> max_out"
  by (auto simp: unpad_data_def Let_def)

lemma decrypt_payload_overflows:
  assumes "enc_len \<le> length encrypted" and "LOCAL_BUFFER + 16 < enc_len"
  shows "decrypt_payload rk stack encrypted enc_len max_out = Inl Out_of_bounds"
  using assms by (simp add: decrypt_payload_def AES_BLOCK_SIZE_def LOCAL_BUFFER_def Let_def less_diff_conv)

lemma decrypt_payload_total:
  assumes "enc_len \<le> length encrypted" and "enc_len \<le> LOCAL_BUFFER + 16" and "length stack = LOCAL_BUFFER"
  shows "\<exists>x. decrypt_payload rk stack encrypted enc_len max_out = Inr x \<and> length x \<le> max_out"
proof (cases "enc_len < 32")
  case True
  then show ?thesis by (simp add: decrypt_payload_def AES_BLOCK_SIZE_def)
next
  case False
  let ?d = "overwrite stack 0 (take (enc_len - 16) (drop 16 encrypted))"
  have "length ?d = LOCAL_BUFFER"
    using assms by simp
  then have "\<exists>q. cbc_decrypt_loop (decrypt_block rk) (enc_len - 16) ?d (take 16 encrypted) = Inr q \<and>
      length q = length ?d"
    using assms False by (intro cbc_decrypt_loop_total) (simp_all add: LOCAL_BUFFER_def)
  then show ?thesis
    using assms False
    by (auto simp: decrypt_payload_def AES_BLOCK_SIZE_def decrypt_cbc_def Let_def length_unpad_data)
qed

section \<open>Properties\<close>

text \<open>
  C5: Every message of at most 1007 bytes survives the codec: \<open>encrypt_payload\<close> succeeds
  with the initialisation vector and the padded ciphertext, and \<open>decrypt_payload\<close> under
  the same key memory returns the message, whatever the local buffer held and whatever
  follows the ciphertext.
\<close>
theorem payload_round_trip:
  assumes "length x \<le> 1007" and "length out = LOCAL_BUFFER" and "length x \<le> max_out"
  shows "\<exists>e. encrypt_payload rk now x out = Inr e \<and>
    take 16 e = generate_iv now \<and> length e = 16 + ((length x + 16) div 16) * 16 \<and>
    (\<forall>stack r. decrypt_payload rk stack (e @ r) (length e) max_out = Inr x)"
  using assms by (rule payload_codec)

theorem payload_round_trip_witness:
  "\<exists>e. encrypt_payload (replicate 240 3) 5 (replicate 100 7) (replicate 1024 0) = Inr e \<and>
    length e = 128 \<and> decrypt_payload (replicate 240 3) (replicate 1024 1) e 128 1024 = Inr (replicate 100 7)"
proof -
  have fits: "length (replicate 100 (7::u8)) \<le> 1007" "length (replicate 1024 (0::u8)) = LOCAL_BUFFER"
      "length (replicate 100 (7::u8)) \<le> 1024"
    by (simp_all only: length_replicate LOCAL_BUFFER_def)
  obtain e where e: "encrypt_payload (replicate 240 3) 5 (replicate 100 7) (replicate 1024 0) = Inr e"
      "length e = 16 + ((length (replicate 100 (7::u8)) + 16) div 16) * 16"
      "\<forall>stack r. decrypt_payload (replicate 240 3) stack (e @ r) (length e) 1024 = Inr (replicate 100 7)"
    using payload_round_trip [OF fits, of "replicate 240 3" 5] by blast
  have len: "length e = 128"
    using e(2) by (simp only: length_replicate) simp
  have "decrypt_payload (replicate 240 3) (replicate 1024 1) (e @ []) (length e) 1024 = Inr (replicate 100 7)"
    using e(3) by blast
  then have "decrypt_payload (replicate 240 3) (replicate 1024 1) e 128 1024 = Inr (replicate 100 7)"
    by (simp only: append_Nil2 len)
  with e(1) len show ?thesis by blast
qed

text \<open>
  The outcome of \<open>encrypt_payload\<close> on the callers' 1024-byte buffer by message length:
  up to 1007 bytes a ciphertext, from 1008 to 1024 the error value, and beyond 1024 bytes
  \<open>pad_data\<close> writes past its local buffer.
\<close>
theorem encrypt_payload_by_length:
  assumes "length out = LOCAL_BUFFER"
  shows "(length x \<le> 1007 \<longrightarrow> (\<exists>e. encrypt_payload rk now x out = Inr e \<and> 32 \<le> length e)) \<and>
    (1008 \<le> length x \<and> length x \<le> 1024 \<longrightarrow> encrypt_payload rk now x out = Inr []) \<and>
    (1024 < length x \<longrightarrow> encrypt_payload rk now x out = Inl Out_of_bounds)"
proof (intro conjI impI)
  assume "length x \<le> 1007"
  then obtain e where "encrypt_payload rk now x out = Inr e" "length e = 16 + ((length x + 16) div 16) * 16"
    using payload_codec [OF _ assms, of x "length x" rk now] by auto
  then show "\<exists>e. encrypt_payload rk now x out = Inr e \<and> 32 \<le> length e"
    by auto
next
  assume "1008 \<le> length x \<and> length x \<le> 1024"
  then show "encrypt_payload rk now x out = Inr []"
    using assms by (intro encrypt_payload_rejects) (simp_all add: LOCAL_BUFFER_def)
next
  assume "1024 < length x"
  then show "encrypt_payload rk now x out = Inl Out_of_bounds"
    using assms by (intro encrypt_payload_overflows) (simp_all add: LOCAL_BUFFER_def)
qed

theorem encrypt_payload_by_length_witness:
  "encrypt_payload (replicate 240 3) 5 (replicate 1025 7) (replicate 1024 0) = Inl Out_of_bounds"
proof -
  have "length (replicate 1024 (0::u8)) = LOCAL_BUFFER" "1024 < length (replicate 1025 (7::u8))"
    by (simp_all only: length_replicate LOCAL_BUFFER_def)
  then show ?thesis
    using encrypt_payload_by_length by blast
qed

text \<open>
  C28: \<open>decrypt_payload\<close> stays inside its 1024-byte local buffer exactly up to an input of
  1040 bytes, and then returns at most \<open>max_out\<close> bytes on any ciphertext; a longer input,
  which the fragment path can hand it, overruns the buffer.
\<close>
theorem decrypt_payload_bounds:
  assumes "enc_len \<le> length encrypted" and "length stack = LOCAL_BUFFER"
  shows "(enc_len \<le> 1040 \<longrightarrow>
      (\<exists>x. decrypt_payload rk stack encrypted enc_len max_out = Inr x \<and> length x \<le> max_out)) \<and>
    (1040 < enc_len \<longrightarrow> decrypt_payload rk stack encrypted enc_len max_out = Inl Out_of_bounds)"
  using decrypt_payload_total [OF assms(1) _ assms(2)] decrypt_payload_overflows [OF assms(1)]
  by (simp add: LOCAL_BUFFER_def)

theorem decrypt_payload_bounds_witness:
  "decrypt_payload (replicate 240 3) (replicate 1024 0) (replicate 2048 9) 2048 2048 = Inl Out_of_bounds"
proof -
  have "2048 \<le> length (replicate 2048 (9::u8))" "length (replicate 1024 (0::u8)) = LOCAL_BUFFER"
    by (simp_all only: length_replicate LOCAL_BUFFER_def)
  moreover have "(1040 :: nat) < 2048" by simp
  ultimately show ?thesis
    using decrypt_payload_bounds by blast
qed

end
