(* ===== verification/Node.thy ===== *)
theory Node
  imports Adverts Persistence Network Config Fragment Payload
begin

text \<open>
  The state of the node program, \<open>src/araba_node.cpp\<close>: its globals and the locals of
  \<open>main\<close> that both threads use, and the helpers both threads call.

  Every operation gets an \<open>env\<close>: the readings of the clocks, the result of \<open>sendto\<close> for each
  packet and the contents of the uninitialised arrays it declares; the clocks do not tick within one
  operation.  The definitions are those of one thread that is not disturbed;
  \<open>net_mutex\<close> says whether the thread that is running owns the mutex, and locking it again
  is the fault \<open>Relock\<close>.  The log file is its text; every call of \<open>sendto\<close>
  is appended to \<open>sent_frames\<close>, with its outcome.
\<close>

section \<open>State\<close>

record pending_ack =
  ack_dest :: mac
  retries :: u8
  sent_time :: int
  original_msg :: string
  ack_seq_num :: u32

record env =
  time_now :: u64
  steady :: int
  local_tm :: "nat \<times> nat \<times> nat"
  sendto_result :: "packet \<Rightarrow> int"
  aes_memory :: bytes
  adv_memory :: bytes
  reassembly_memory :: bytes
  decrypt_memory :: bytes
  encrypt_memory :: bytes
  junk_version :: u8
  junk_count :: u32

record node =
  net :: network_interface
  my_mac :: mac
  my_table :: routing_table
  known_neighbors :: neighbours
  seq_num :: u32
  queue :: disk
  net_mutex :: bool
  base_key :: bytes
  pair_ciphers :: "(string, bytes) std_map"
  frag_mgr :: fragment_manager
  g_config :: node_config
  pending_acks :: "(u32, pending_ack) std_map"
  next_ack_seq :: u32
  cleanup_counter :: int
  received_packet :: packet
  log_text :: string
  sent_frames :: "frame list"

definition env_ok :: "env \<Rightarrow> bool" where
  "env_ok env \<longleftrightarrow> length (aes_memory env) = 240 \<and> length (adv_memory env) = 512 \<and>
     length (reassembly_memory env) = 2048 \<and> length (decrypt_memory env) = LOCAL_BUFFER \<and>
     length (encrypt_memory env) = LOCAL_BUFFER"

section \<open>The mutex\<close>

definition lock_net :: "node \<Rightarrow> fault + node" where
  "lock_net st = (if net_mutex st then Inl Relock else Inr (st \<lparr> net_mutex := True \<rparr>))"

definition unlock_net :: "node \<Rightarrow> node" where
  "unlock_net st = st \<lparr> net_mutex := False \<rparr>"

section \<open>Log, cipher cache and sending\<close>

definition log_line :: "nat \<times> nat \<times> nat \<Rightarrow> string \<Rightarrow> string" where
  "log_line tm msg =
     (case tm of (h, m, s) \<Rightarrow>
        ''['' @ show_dec h @ '':'' @ show_dec m @ '':'' @ show_dec s @ ''] '' @ msg @ [CHR 0x0A])"

definition log_event :: "env \<Rightarrow> string \<Rightarrow> node \<Rightarrow> node" where
  "log_event env msg st = st \<lparr> log_text := log_text st @ log_line (local_tm env) msg \<rparr>"

text \<open>A cipher object is its round-key memory.\<close>

definition get_pair_cipher :: "env \<Rightarrow> mac \<Rightarrow> mac \<Rightarrow> node \<Rightarrow> fault + (bytes \<times> node)" where
  "get_pair_cipher env their_mac my st =
     (let key = mac_to_string their_mac
      in case lock_net st of
           Inl e \<Rightarrow> Inl e
         | Inr st \<Rightarrow>
             (case m_find (pair_ciphers st) key of
                Some aes \<Rightarrow> Inr (aes, unlock_net st)
              | None \<Rightarrow>
                  (let pair_key = derive_pair_key my their_mac (base_key st);
                       aes = key_expansion (aes_memory env) pair_key
                   in Inr (aes, unlock_net (st \<lparr> pair_ciphers := m_put key aes (pair_ciphers st) \<rparr>)))))"

definition transmit :: "env \<Rightarrow> packet \<Rightarrow> mac \<Rightarrow> node \<Rightarrow> node" where
  "transmit env p dst st =
     st \<lparr> sent_frames := sent_frames st @ snd (send_packet (net st) p dst (sendto_result env p)) \<rparr>"

definition next_seq :: "node \<Rightarrow> node" where
  "next_seq st = st \<lparr> seq_num := seq_num st + 1 \<rparr>"

definition send_ack :: "env \<Rightarrow> mac \<Rightarrow> mac \<Rightarrow> u32 \<Rightarrow> node \<Rightarrow> node" where
  "send_ack env dst my ack_seq st =
     transmit env (set_payload (init ACK my dst ack_seq) (le_bytes 4 ack_seq)) dst st"

definition bytes_string :: "bytes \<Rightarrow> string" where
  "bytes_string b = map byte_char b"

definition string_bytes :: "string \<Rightarrow> bytes" where
  "string_bytes s = map char_byte s"

section \<open>Receiving\<close>

text \<open>A source address heard for the first time.\<close>

definition note_neighbor :: "env \<Rightarrow> mac \<Rightarrow> node \<Rightarrow> node" where
  "note_neighbor env src st =
     (let src_mac = mac_to_string src
      in if src_mac \<notin> set (known_neighbors st)
         then log_event env (''NEW NEIGHBOR: '' @ src_mac)
                (st \<lparr> known_neighbors := insort src_mac (known_neighbors st),
                     my_table := add_route (my_table st) src src 1 (time_now env) \<rparr>)
         else st)"

text \<open>The body of the delivery loop copies \<open>payload_len\<close> bytes from one array of 512 to another.\<close>

fun deliver_entries :: "env \<Rightarrow> rue_entry list \<Rightarrow> node \<Rightarrow> fault + node" where
  "deliver_entries env [] st = Inr st"
| "deliver_entries env (e # es) st =
     (if unat (entry_len e) > MAX_PAYLOAD_SIZE then Inl Out_of_bounds
      else
        (let fwd = set_payload (init DATA (my_mac st) (dest_mac e) (seq_num st))
                     (take (unat (entry_len e)) (entry_payload e));
             st = transmit env fwd (dest_mac e) (next_seq st);
             st = st \<lparr> queue := snd (remove_entry (queue st) e) \<rparr>
         in deliver_entries env es st))"

definition auto_deliver :: "env \<Rightarrow> mac \<Rightarrow> node \<Rightarrow> fault + node" where
  "auto_deliver env src st =
     (let src_mac = mac_to_string src;
          src_bytes = string_to_mac src_mac;
          pending = get_pending (queue st) src_bytes
      in if pending = [] then Inr st
         else deliver_entries env pending
           (log_event env (''Auto-delivering '' @ show_dec (length pending) @ '' queued messages to '' @ src_mac) st))"

definition handle_discovery :: "env \<Rightarrow> packet \<Rightarrow> node \<Rightarrow> fault + node" where
  "handle_discovery env p st =
     (let src = source (header p);
          adv_pkt = init ROUTE_ADV (my_mac st) src (seq_num st);
          st = next_seq st
      in case pack_routes (known_neighbors st) (adv_memory env) 512 of
           Inl e \<Rightarrow> Inl e
         | Inr (adv_len, adv_payload) \<Rightarrow>
             if adv_len > MAX_PAYLOAD_SIZE then Inl Out_of_bounds
             else Inr (transmit env (set_payload adv_pkt (take adv_len adv_payload)) src st))"

definition handle_route_adv :: "env \<Rightarrow> packet \<Rightarrow> node \<Rightarrow> fault + node" where
  "handle_route_adv env p st =
     (let src = source (header p)
      in case unpack_routes (payload p) (unat (payload_len (header p))) src (\<lambda>i. time_now env) (my_table st) of
           Inl e \<Rightarrow> Inl e
         | Inr t \<Rightarrow> Inr (log_event env (''ROUTE_ADV from '' @ mac_to_string src) (st \<lparr> my_table := t \<rparr>)))"

definition handle_ack :: "env \<Rightarrow> packet \<Rightarrow> node \<Rightarrow> node" where
  "handle_ack env p st =
     (if unat (payload_len (header p)) \<ge> 4
      then
        (let acked_seq = of_le_bytes (take 4 (payload p))
         in case m_find (pending_acks st) acked_seq of
              None \<Rightarrow> st
            | Some _ \<Rightarrow>
                (log_event env (''ACK received for seq '' @ show_dec (unat acked_seq) @ '' from '' @
                     mac_to_string (source (header p))) st)
                  \<lparr> pending_acks := m_erase acked_seq (pending_acks st) \<rparr>)
      else st)"

text \<open>What follows the decryption of a reassembled message and of a single packet.\<close>

definition deliver_reassembled :: "env \<Rightarrow> packet \<Rightarrow> bytes \<Rightarrow> node \<Rightarrow> node" where
  "deliver_reassembled env p decrypted st =
     (let src = source (header p); src_mac = mac_to_string src
      in if decrypted = [] then log_event env (''Failed to decrypt reassembled DATA from '' @ src_mac) st
         else if dest (header p) \<noteq> my_mac st
           then log_event env (''DROPPED fragmented DATA '' @ [CHR 0xE2, CHR 0x80, CHR 0x94] @
                  '' forwarding not yet supported'') st
         else send_ack env src (my_mac st) (sequence_id (header p))
           (log_event env (''MESSAGE RECEIVED from '' @ src_mac @ '': '' @ bytes_string decrypted) st))"

definition deliver_single :: "env \<Rightarrow> packet \<Rightarrow> bytes \<Rightarrow> node \<Rightarrow> node" where
  "deliver_single env p decrypted st =
     (let src = source (header p); src_mac = mac_to_string src
      in if decrypted = [] then log_event env (''Failed to decrypt DATA from '' @ src_mac) st
         else if dest (header p) \<noteq> my_mac st
           then (case find_next_hop (my_table st) (dest (header p)) (time_now env) of
                   Some route \<Rightarrow>
                     if ttl (header p) > 1
                     then log_event env (''FORWARDED DATA to '' @ mac_to_string (next_hop route))
                       (transmit env (p \<lparr> header := (header p) \<lparr> ttl := ttl (header p) - 1 \<rparr> \<rparr>) (next_hop route) st)
                     else st
                 | None \<Rightarrow> st)
         else send_ack env src (my_mac st) (sequence_id (header p))
           (log_event env (''MESSAGE RECEIVED from '' @ src_mac @ '': '' @ bytes_string decrypted) st))"

definition is_fragment :: "packet \<Rightarrow> bool" where
  "is_fragment p =
     (if unat (payload_len (header p)) \<ge> FRAG_HEADER_SIZE
      then frag_total (frag_header_of_bytes (take FRAG_HEADER_SIZE (payload p))) > 1
      else False)"

definition handle_data :: "env \<Rightarrow> packet \<Rightarrow> node \<Rightarrow> fault + node" where
  "handle_data env p st =
     (if is_fragment p
      then
        (case reassemble_packet (frag_mgr st) p (steady env) (reassembly_memory env) 2048 0 of
           Inl e \<Rightarrow> Inl e
         | Inr (complete, fm, reassembled_enc, reassembled_enc_len) \<Rightarrow>
             (let st = st \<lparr> frag_mgr := fm \<rparr>
              in if \<not> complete then Inr st
                 else
                   (case get_pair_cipher env (source (header p)) (my_mac st) st of
                      Inl e \<Rightarrow> Inl e
                    | Inr (aes, st) \<Rightarrow>
                        (case decrypt_payload aes (decrypt_memory env) reassembled_enc reassembled_enc_len 2048 of
                           Inl e \<Rightarrow> Inl e
                         | Inr decrypted \<Rightarrow> Inr (deliver_reassembled env p decrypted st)))))
      else
        (case get_pair_cipher env (source (header p)) (my_mac st) st of
           Inl e \<Rightarrow> Inl e
         | Inr (aes, st) \<Rightarrow>
             (case decrypt_payload aes (decrypt_memory env) (payload p) (unat (payload_len (header p))) 1024 of
                Inl e \<Rightarrow> Inl e
              | Inr decrypted \<Rightarrow> Inr (deliver_single env p decrypted st))))"

text \<open>The tests of the packet type; a type none of them matches is ignored.\<close>

definition dispatch :: "env \<Rightarrow> packet \<Rightarrow> node \<Rightarrow> fault + node" where
  "dispatch env p st =
     (if ptype (header p) = DISCOVERY then handle_discovery env p st
      else if ptype (header p) = ROUTE_ADV then handle_route_adv env p st
      else if ptype (header p) = ACK then Inr (handle_ack env p st)
      else if ptype (header p) = DATA then handle_data env p st
      else Inr st)"

text \<open>The body of the receive loop from the lock on, for a packet of another node.\<close>

definition handle_packet :: "env \<Rightarrow> packet \<Rightarrow> node \<Rightarrow> fault + node" where
  "handle_packet env p st =
     (case lock_net st of
        Inl e \<Rightarrow> Inl e
      | Inr st \<Rightarrow>
          (case auto_deliver env (source (header p)) (note_neighbor env (source (header p)) st) of
             Inl e \<Rightarrow> Inl e
           | Inr st \<Rightarrow>
               (case dispatch env p st of
                  Inl e \<Rightarrow> Inl e
                | Inr st \<Rightarrow> Inr (unlock_net st))))"

definition receive_step :: "env \<Rightarrow> bytes option \<Rightarrow> node \<Rightarrow> fault + node" where
  "receive_step env recv st =
     (case receive_packet (net st) (received_packet st) recv of
        (ok, p) \<Rightarrow>
          (let st = st \<lparr> received_packet := p \<rparr>
           in if \<not> ok then Inr st
              else if source (header p) = my_mac st then Inr st
              else handle_packet env p st))"

end
