(* ===== verification/Handler.thy ===== *)
theory Handler
  imports Node
begin

text \<open>
  What the receive loop of \<open>src/araba_node.cpp\<close> keeps true, packet by packet: the invariant
  \<open>node_ok\<close> of the node's state, the frame of every step, and the faults a packet can cause.
\<close>

section \<open>The invariant\<close>

definition mac_texts :: "neighbours \<Rightarrow> bool" where
  "mac_texts ns \<longleftrightarrow> sorted_wrt (<) ns \<and> (\<forall>n \<in> set ns. \<exists>m. length m = 6 \<and> n = mac_to_string m)"

definition node_ok :: "node \<Rightarrow> bool" where
  "node_ok st \<longleftrightarrow> length (my_mac st) = 6 \<and> table_ok (my_table st) \<and> mac_texts (known_neighbors st) \<and>
     (\<exists>es. stores (queue st) es) \<and> m_ok (pair_ciphers st) \<and> fm_ok (frag_mgr st) \<and> m_ok (pending_acks st) \<and>
     wf_packet (received_packet st) \<and> length (base_key st) = AES_KEY_SIZE"

named_theorems node_frame "fields an operation of the node does not write"

lemma log_event_frame [node_frame, simp]:
  "net (log_event env m st) = net st" "my_mac (log_event env m st) = my_mac st"
  "my_table (log_event env m st) = my_table st" "known_neighbors (log_event env m st) = known_neighbors st"
  "seq_num (log_event env m st) = seq_num st" "queue (log_event env m st) = queue st"
  "net_mutex (log_event env m st) = net_mutex st" "base_key (log_event env m st) = base_key st"
  "pair_ciphers (log_event env m st) = pair_ciphers st" "frag_mgr (log_event env m st) = frag_mgr st"
  "g_config (log_event env m st) = g_config st" "pending_acks (log_event env m st) = pending_acks st"
  "next_ack_seq (log_event env m st) = next_ack_seq st" "cleanup_counter (log_event env m st) = cleanup_counter st"
  "received_packet (log_event env m st) = received_packet st" "sent_frames (log_event env m st) = sent_frames st"
  "log_text (log_event env m st) = log_text st @ log_line (local_tm env) m"
  by (simp_all add: log_event_def)

lemma transmit_frame [node_frame, simp]:
  "net (transmit env p d st) = net st" "my_mac (transmit env p d st) = my_mac st"
  "my_table (transmit env p d st) = my_table st" "known_neighbors (transmit env p d st) = known_neighbors st"
  "seq_num (transmit env p d st) = seq_num st" "queue (transmit env p d st) = queue st"
  "net_mutex (transmit env p d st) = net_mutex st" "base_key (transmit env p d st) = base_key st"
  "pair_ciphers (transmit env p d st) = pair_ciphers st" "frag_mgr (transmit env p d st) = frag_mgr st"
  "g_config (transmit env p d st) = g_config st" "pending_acks (transmit env p d st) = pending_acks st"
  "next_ack_seq (transmit env p d st) = next_ack_seq st" "cleanup_counter (transmit env p d st) = cleanup_counter st"
  "received_packet (transmit env p d st) = received_packet st" "log_text (transmit env p d st) = log_text st"
  by (simp_all add: transmit_def)

lemma next_seq_frame [node_frame, simp]:
  "net (next_seq st) = net st" "my_mac (next_seq st) = my_mac st"
  "my_table (next_seq st) = my_table st" "known_neighbors (next_seq st) = known_neighbors st"
  "seq_num (next_seq st) = seq_num st + 1" "queue (next_seq st) = queue st"
  "net_mutex (next_seq st) = net_mutex st" "base_key (next_seq st) = base_key st"
  "pair_ciphers (next_seq st) = pair_ciphers st" "frag_mgr (next_seq st) = frag_mgr st"
  "g_config (next_seq st) = g_config st" "pending_acks (next_seq st) = pending_acks st"
  "next_ack_seq (next_seq st) = next_ack_seq st" "cleanup_counter (next_seq st) = cleanup_counter st"
  "received_packet (next_seq st) = received_packet st" "sent_frames (next_seq st) = sent_frames st"
  "log_text (next_seq st) = log_text st"
  by (simp_all add: next_seq_def)

text \<open>The invariant reads none of the fields these three write.\<close>

lemma node_ok_frame [simp]:
  "node_ok (log_event env m st) = node_ok st" "node_ok (transmit env p d st) = node_ok st"
  "node_ok (next_seq st) = node_ok st" "node_ok (st \<lparr> net_mutex := b \<rparr>) = node_ok st"
  "node_ok (unlock_net st) = node_ok st"
  by (simp_all add: node_ok_def unlock_net_def)

text \<open>What no packet changes: the socket, the node's address and keys, the ciphers, the configuration.\<close>

definition same_identity :: "node \<Rightarrow> node \<Rightarrow> bool" where
  "same_identity st st' \<longleftrightarrow> net st' = net st \<and> my_mac st' = my_mac st \<and> base_key st' = base_key st \<and>
     pair_ciphers st' = pair_ciphers st \<and> g_config st' = g_config st \<and> net_mutex st' = net_mutex st \<and>
     next_ack_seq st' = next_ack_seq st \<and> cleanup_counter st' = cleanup_counter st"

lemma same_identity_refl [simp]: "same_identity st st"
  by (simp add: same_identity_def)

lemma same_identity_trans: "same_identity a b \<Longrightarrow> same_identity b c \<Longrightarrow> same_identity a c"
  by (simp add: same_identity_def)

lemma same_identity_frame [simp]:
  "same_identity a (log_event env m st) = same_identity a st"
  "same_identity a (transmit env p d st) = same_identity a st"
  "same_identity a (next_seq st) = same_identity a st"
  by (simp_all add: same_identity_def)

text \<open>A step that keeps both.\<close>

definition keeps :: "node \<Rightarrow> node \<Rightarrow> bool" where
  "keeps st st' \<longleftrightarrow> node_ok st' \<and> same_identity st st'"

lemma keeps_trans: "keeps a b \<Longrightarrow> keeps b c \<Longrightarrow> keeps a c"
  by (auto simp: keeps_def intro: same_identity_trans)

section \<open>Neighbours\<close>

lemma sorted_wrt_insort:
  fixes x :: "'a::linorder"
  shows "sorted_wrt (<) xs \<Longrightarrow> x \<notin> set xs \<Longrightarrow> sorted_wrt (<) (insort x xs)"
  by (induction xs) (auto simp: set_insort_key)

lemma note_neighbor_keeps:
  assumes "node_ok st" and "length src = 6"
  shows "keeps st (note_neighbor env src st) \<and> mac_to_string src \<in> set (known_neighbors (note_neighbor env src st))"
proof (cases "mac_to_string src \<in> set (known_neighbors st)")
  case True
  then show ?thesis
    using assms by (simp add: note_neighbor_def keeps_def)
next
  case False
  let ?st = "st \<lparr> known_neighbors := insort (mac_to_string src) (known_neighbors st),
      my_table := add_route (my_table st) src src 1 (time_now env) \<rparr>"
  have "mac_texts (insort (mac_to_string src) (known_neighbors st))"
    using assms False by (auto simp: mac_texts_def node_ok_def sorted_wrt_insort set_insort_key)
  then have "node_ok ?st"
    using assms by (simp add: node_ok_def table_ok_add_route)
  moreover have "same_identity st ?st"
    by (simp add: same_identity_def)
  ultimately show ?thesis
    using False by (simp add: note_neighbor_def Let_def keeps_def set_insort_key)
qed

section \<open>Delivery of queued messages\<close>

text \<open>The packets the delivery loop makes of a list of entries.\<close>

fun delivery_packets :: "mac \<Rightarrow> u32 \<Rightarrow> rue_entry list \<Rightarrow> packet list" where
  "delivery_packets my seq [] = []"
| "delivery_packets my seq (e # es) =
     set_payload (init DATA my (dest_mac e) seq) (take (unat (entry_len e)) (entry_payload e)) #
       delivery_packets my (seq + 1) es"

definition frames_to :: "env \<Rightarrow> network_interface \<Rightarrow> (packet \<times> mac) list \<Rightarrow> frame list" where
  "frames_to env n ps = concat (map (\<lambda>(p, d). snd (send_packet n p d (sendto_result env p))) ps)"

lemma frames_to_simps [simp]:
  "frames_to env n [] = []"
  "frames_to env n ((p, d) # ps) = snd (send_packet n p d (sendto_result env p)) @ frames_to env n ps"
  by (simp_all add: frames_to_def)

lemma transmit_queue: "(transmit env p d st) \<lparr> queue := q \<rparr> = transmit env p d (st \<lparr> queue := q \<rparr>)"
  by (simp add: transmit_def)

lemma deliver_entries_eq:
  assumes "\<forall>e \<in> set es. unat (entry_len e) \<le> MAX_PAYLOAD_SIZE"
  shows "deliver_entries env es st = Inr (st \<lparr> seq_num := seq_num st + of_nat (length es),
      queue := remove_entries (queue st) es,
      sent_frames := sent_frames st @
        frames_to env (net st) (zip (delivery_packets (my_mac st) (seq_num st) es) (map dest_mac es)) \<rparr>)"
  using assms
proof (induction es arbitrary: st)
  case Nil
  then show ?case by (simp add: remove_entries_def)
next
  case (Cons e es)
  then show ?case
    by (simp add: Let_def remove_entries_def transmit_def next_seq_def add.assoc not_less)
qed

lemma auto_deliver_keeps:
  assumes "node_ok st" and "length src = 6"
  shows "\<exists>st'. auto_deliver env src st = Inr st' \<and> keeps st st' \<and> get_pending (queue st') src = []"
proof -
  obtain es where es: "stores (queue st) es"
    using assms(1) by (auto simp: node_ok_def)
  let ?pend = "get_pending (queue st) src"
  have pend: "?pend = filter (\<lambda>e. dest_mac e = src) es"
    using es by (simp add: get_pending_eq stores_get_all)
  then have len: "\<forall>e \<in> set ?pend. unat (entry_len e) \<le> MAX_PAYLOAD_SIZE"
    using es by (auto simp: stores_def wf_entry_def)
  show ?thesis
  proof (cases "?pend = []")
    case True
    then show ?thesis
      using assms by (simp add: auto_deliver_def keeps_def)
  next
    case False
    let ?st = "log_event env (''Auto-delivering '' @ show_dec (length ?pend) @ '' queued messages to '' @ mac_to_string src) st"
    have drained: "stores (remove_entries (queue st) ?pend) (filter (\<lambda>e. dest_mac e \<noteq> src) es)"
        "get_pending (remove_entries (queue st) ?pend) src = []"
      using rue.deliver_pending [OF es, of src] rue.nothing_left [OF es, of src] by (simp_all add: remove_entries_eq)
    then show ?thesis
      using False assms deliver_entries_eq [OF len, of env ?st]
      by (auto simp: auto_deliver_def Let_def keeps_def node_ok_def same_identity_def)
  qed
qed

text \<open>None of this touches the fragments.\<close>

lemma note_neighbor_frag [simp]: "frag_mgr (note_neighbor env src st) = frag_mgr st"
  by (simp add: note_neighbor_def Let_def)

lemma deliver_entries_frag: "deliver_entries env es st = Inr st' \<Longrightarrow> frag_mgr st' = frag_mgr st"
  by (induction env es st rule: deliver_entries.induct) (auto simp: Let_def split: if_splits)

lemma auto_deliver_frag: "auto_deliver env src st = Inr st' \<Longrightarrow> frag_mgr st' = frag_mgr st"
  by (auto simp: auto_deliver_def Let_def dest: deliver_entries_frag split: if_splits)

section \<open>The packet types\<close>

lemma handle_discovery_keeps:
  assumes "node_ok st" and "env_ok env"
  shows "\<exists>st'. handle_discovery env p st = Inr st' \<and> keeps st st'"
proof -
  have mem: "length (adv_memory env) = 512"
    using assms(2) by (simp add: env_ok_def)
  show ?thesis
    using assms(1) by (simp add: handle_discovery_def pack_routes_eq [OF mem] Let_def MAX_PAYLOAD_SIZE_def keeps_def)
qed

lemma handle_route_adv_keeps:
  assumes "node_ok st" and "wf_packet p" and "unat (payload_len (header p)) \<le> MAX_PAYLOAD_SIZE"
  shows "\<exists>st'. handle_route_adv env p st = Inr st' \<and> keeps st st'"
proof -
  have "unat (payload_len (header p)) \<le> length (payload p)" "length (source (header p)) = 6"
    using assms(2,3) by (simp_all add: wf_packet_def wf_header_def)
  from unpack_routes_total [OF this, of "\<lambda>i. time_now env" "my_table st"] obtain us where
    us: "unpack_routes (payload p) (unat (payload_len (header p))) (source (header p)) (\<lambda>i. time_now env) (my_table st) =
        Inr (learn_routes (my_table st) us)" "sized_updates us"
    by blast
  have "table_ok (learn_routes (my_table st) us)"
    using assms(1) us(2) by (intro table_ok_learn_routes) (simp_all add: node_ok_def)
  then show ?thesis
    using assms(1) us(1) by (simp add: handle_route_adv_def keeps_def node_ok_def same_identity_def)
qed

lemma handle_ack_keeps:
  assumes "node_ok st"
  shows "keeps st (handle_ack env p st)"
proof -
  have "m_ok (m_erase k (pending_acks st))" for k
    using assms by (simp add: node_ok_def std.invar_erase)
  then show ?thesis
    using assms
    by (auto simp: handle_ack_def Let_def keeps_def node_ok_def same_identity_def split: option.splits)
qed

text \<open>
  The mutex is held while a \<open>DATA\<close> packet is handled, so \<open>get_pair_cipher\<close> cannot lock it:
  the packet is either put aside as a fragment or ends in the fault.
\<close>

lemma get_pair_cipher_locked: "net_mutex st \<Longrightarrow> get_pair_cipher env m my st = Inl Relock"
  by (simp add: get_pair_cipher_def lock_net_def)

lemma handle_data_locked:
  assumes "net_mutex st" and "fm_ok (frag_mgr st)" and "env_ok env"
    and "wf_packet p" and "unat (payload_len (header p)) \<le> MAX_PAYLOAD_SIZE"
  shows "\<exists>c fm buf n. reassemble_packet (frag_mgr st) p (steady env) (reassembly_memory env) 2048 0 = Inr (c, fm, buf, n) \<and>
    fm_ok fm \<and> handle_data env p st = (if is_fragment p \<and> \<not> c then Inr (st \<lparr> frag_mgr := fm \<rparr>) else Inl Relock)"
proof -
  have "unat (payload_len (header p)) \<le> length (payload p)" "2048 \<le> length (reassembly_memory env)"
    using assms(3-5) by (simp_all add: wf_packet_def env_ok_def)
  from reassemble_packet_safe [OF this assms(2), of "steady env" 0] obtain c fm buf n where
    r: "reassemble_packet (frag_mgr st) p (steady env) (reassembly_memory env) 2048 0 = Inr (c, fm, buf, n)" "fm_ok fm"
    by blast
  then show ?thesis
    using assms(1) by (simp add: handle_data_def get_pair_cipher_locked Let_def)
qed

lemma dispatch_keeps:
  assumes "node_ok st" and "env_ok env" and "net_mutex st"
    and "wf_packet p" and "unat (payload_len (header p)) \<le> MAX_PAYLOAD_SIZE"
  shows "(\<exists>st'. dispatch env p st = Inr st' \<and> keeps st st') \<or> dispatch env p st = Inl Relock \<and> ptype (header p) = DATA"
proof -
  have "fm_ok (frag_mgr st)"
    using assms(1) by (simp add: node_ok_def)
  from handle_data_locked [OF assms(3) this assms(2,4,5)] obtain c fm' where
    d: "handle_data env p st = (if is_fragment p \<and> \<not> c then Inr (st \<lparr> frag_mgr := fm' \<rparr>) else Inl Relock)" "fm_ok fm'"
    by blast
  have "keeps st (st \<lparr> frag_mgr := fm' \<rparr>)"
    using assms(1) d(2) by (simp add: keeps_def node_ok_def same_identity_def)
  then have data: "(\<exists>st'. handle_data env p st = Inr st' \<and> keeps st st') \<or> handle_data env p st = Inl Relock"
    by (simp add: d(1))
  show ?thesis
    using data handle_discovery_keeps [OF assms(1,2), of p] handle_route_adv_keeps [OF assms(1,4,5), of env]
      handle_ack_keeps [OF assms(1), of env p] assms(1)
    by (simp add: dispatch_def keeps_def)
qed

lemma handle_packet_keeps:
  assumes "node_ok st" and "env_ok env" and "\<not> net_mutex st"
    and "wf_packet p" and "unat (payload_len (header p)) \<le> MAX_PAYLOAD_SIZE"
  shows "(\<exists>st'. handle_packet env p st = Inr st' \<and> keeps st st') \<or> handle_packet env p st = Inl Relock \<and> ptype (header p) = DATA"
proof -
  let ?src = "source (header p)" and ?st0 = "st \<lparr> net_mutex := True \<rparr>"
  have src: "length ?src = 6"
    using assms(4) by (simp add: wf_packet_def wf_header_def)
  let ?st1 = "note_neighbor env ?src ?st0"
  have st1: "keeps ?st0 ?st1"
    using note_neighbor_keeps [of ?st0 ?src env] assms(1) src by simp
  then obtain st2 where st2: "auto_deliver env ?src ?st1 = Inr st2" "keeps ?st1 st2"
    using auto_deliver_keeps [of ?st1 ?src env] src by (auto simp: keeps_def)
  have "keeps ?st0 st2"
    using st1 st2(2) by (rule keeps_trans)
  then have "net_mutex st2" "node_ok st2"
    by (simp_all add: keeps_def same_identity_def)
  from dispatch_keeps [OF this(2) assms(2) this(1) assms(4,5)]
  have "(\<exists>st3. dispatch env p st2 = Inr st3 \<and> keeps ?st0 st3) \<or> dispatch env p st2 = Inl Relock \<and> ptype (header p) = DATA"
    using \<open>keeps ?st0 st2\<close> keeps_trans by blast
  moreover have "handle_packet env p st = map_sum id unlock_net (dispatch env p st2)"
    using assms(3) st2(1) by (auto simp: handle_packet_def lock_net_def split: sum.splits)
  moreover have "keeps st (unlock_net st3)" if "keeps ?st0 st3" for st3
    using that assms(3) by (simp add: keeps_def same_identity_def unlock_net_def)
  ultimately show ?thesis
    by auto
qed

lemma receive_step_keeps:
  assumes "node_ok st" and "env_ok env" and "\<not> net_mutex st"
  shows "(\<exists>st'. receive_step env recv st = Inr st' \<and> keeps st st') \<or>
    receive_step env recv st = Inl Relock \<and>
      ptype (header (snd (receive_packet (net st) (received_packet st) recv))) = DATA"
proof -
  obtain ok p where r: "receive_packet (net st) (received_packet st) recv = (ok, p)"
    by (cases "receive_packet (net st) (received_packet st) recv")
  have wf: "wf_packet p" "ok \<longrightarrow> unat (payload_len (header p)) \<le> MAX_PAYLOAD_SIZE"
    using receive_total [OF _ r] assms(1) by (simp_all add: node_ok_def)
  let ?st = "st \<lparr> received_packet := p \<rparr>"
  have st: "node_ok ?st" "same_identity st ?st" "\<not> net_mutex ?st"
    using assms wf(1) by (simp_all add: node_ok_def same_identity_def)
  then have base: "keeps st ?st"
    by (simp add: keeps_def)
  show ?thesis
  proof (cases "ok \<and> source (header p) \<noteq> my_mac st")
    case False
    then have "receive_step env recv st = Inr ?st"
      by (auto simp: receive_step_def r Let_def)
    with base show ?thesis by blast
  next
    case True
    then have "receive_step env recv st = handle_packet env p ?st"
      by (simp add: receive_step_def r Let_def)
    then show ?thesis
      using handle_packet_keeps [OF st(1) assms(2) st(3) wf(1)] wf(2) True keeps_trans [OF base] by (auto simp: r)
  qed
qed

text \<open>The frames that can cause the double lock: those with a packet of type \<open>DATA\<close>.\<close>

definition data_frame :: "bytes option \<Rightarrow> bool" where
  "data_frame recv = (case recv of None \<Rightarrow> False | Some fr \<Rightarrow> 35 \<le> length fr \<and> fr ! 15 = DATA)"

lemma receive_step_safe_frame:
  assumes "node_ok st" and "env_ok env" and "\<not> net_mutex st"
  shows "(\<exists>st'. receive_step env recv st = Inr st' \<and> keeps st st') \<or>
    receive_step env recv st = Inl Relock \<and> data_frame recv"
proof (cases "fst (receive_packet (net st) (received_packet st) recv)")
  case True
  then obtain p where p: "receive_packet (net st) (received_packet st) recv = (True, p)"
    by (cases "receive_packet (net st) (received_packet st) recv") simp
  from received_type [OF this] obtain fr where fr: "recv = Some fr" "35 \<le> length fr" "ptype (header p) = fr ! 15"
    by blast
  have "data_frame recv" if "ptype (header p) = DATA"
    using that fr by (simp add: data_frame_def)
  then show ?thesis
    using receive_step_keeps [OF assms, of recv] p by auto
next
  case False
  then obtain p where "receive_packet (net st) (received_packet st) recv = (False, p)"
    by (cases "receive_packet (net st) (received_packet st) recv") simp
  then have "receive_step env recv st \<noteq> Inl Relock"
    by (simp add: receive_step_def)
  then show ?thesis
    using receive_step_keeps [OF assms, of recv] by blast
qed

section \<open>Single packets and fragments\<close>

lemma is_fragment_iff:
  "is_fragment p \<longleftrightarrow> 6 \<le> unat (payload_len (header p)) \<and> frag_total (frag_header_of p) > 1"
  by (simp add: is_fragment_def frag_header_of_def FRAG_HEADER_SIZE_def)

text \<open>A payload that starts with an initialisation vector: its fourth byte is read as the fragment count.\<close>

lemma frag_total_of_payload:
  assumes "6 \<le> length d" and "length d \<le> 512"
  shows "frag_total (frag_header_of (set_payload (init ty src dst seq) d)) = d ! 3"
proof -
  have "take 6 (overwrite (replicate MAX_PAYLOAD_SIZE 0) 0 d) = take 6 d"
    using assms(1) by (simp add: take_overwrite_0)
  then show ?thesis
    using assms by (simp add: frag_header_of_def FRAG_HEADER_SIZE_def frag_header_of_bytes_def)
qed

lemma iv_byte_3: "generate_iv now ! 3 = ucast (signed_drop_bit 12 now AND 0xFF)"
  by (simp add: generate_iv_def aes_sizes)

text \<open>A fragment of a message nobody has heard of leaves that message incomplete.\<close>

lemma first_fragment_waits:
  assumes "unat (payload_len (header p)) \<le> length (payload p)" and "is_fragment p"
    and "m_find (partials fm) (msg_id (frag_header_of p)) = None"
  shows "reassemble_packet fm p now buf max_out ol =
    Inr (False, fm \<lparr> partials := m_put (msg_id (frag_header_of p)) (with_fragment fm p now) (partials fm) \<rparr>, buf, ol)"
proof -
  have "fragments (with_fragment fm p now) = [(frag_index (frag_header_of p), drop FRAG_HEADER_SIZE (payload_bytes p))]"
    using assms(3) by (simp add: fragments_with_fragment partial_of_def empty_partial_def m_put_def)
  moreover have "1 < unat (frag_total (frag_header_of p))" "\<not> frag_total (frag_header_of p) \<le> 1"
    using assms(2) by (simp_all add: is_fragment_iff word_less_nat_alt not_le)
  ultimately show ?thesis
    using assms(1,2) by (simp add: reassemble_packet_eq is_fragment_iff FRAG_HEADER_SIZE_def Let_def not_le not_less)
qed

text \<open>A step that receives a \<open>DATA\<close> packet.\<close>

lemma data_step:
  assumes "node_ok st" and "env_ok env" and "\<not> net_mutex st"
    and "receive_packet (net st) (received_packet st) recv = (True, p)"
    and "source (header p) \<noteq> my_mac st" and "ptype (header p) = DATA"
  shows "if is_fragment p
    then receive_step env recv st = Inl Relock \<or>
      (\<exists>fm buf n. reassemble_packet (frag_mgr st) p (steady env) (reassembly_memory env) 2048 0 = Inr (False, fm, buf, n))
    else receive_step env recv st = Inl Relock"
proof -
  have wf: "wf_packet p" "unat (payload_len (header p)) \<le> MAX_PAYLOAD_SIZE"
    using receive_total [OF _ assms(4)] assms(1) by (simp_all add: node_ok_def)
  let ?src = "source (header p)" and ?st0 = "st \<lparr> received_packet := p, net_mutex := True \<rparr>"
  have src: "length ?src = 6"
    using wf(1) by (simp add: wf_packet_def wf_header_def)
  have "node_ok ?st0"
    using assms(1) wf(1) by (simp add: node_ok_def)
  then have st1: "keeps ?st0 (note_neighbor env ?src ?st0)"
    using note_neighbor_keeps src by blast
  then obtain st2 where st2: "auto_deliver env ?src (note_neighbor env ?src ?st0) = Inr st2"
      "keeps (note_neighbor env ?src ?st0) st2" "frag_mgr st2 = frag_mgr st"
    using auto_deliver_frag auto_deliver_keeps [of "note_neighbor env ?src ?st0" ?src env] src
    by (fastforce simp: keeps_def)
  have "net_mutex st2" "fm_ok (frag_mgr st2)"
    using keeps_trans [OF st1 st2(2)] by (simp_all add: keeps_def same_identity_def node_ok_def)
  from handle_data_locked [OF this assms(2) wf] obtain c fm buf n where
    d: "reassemble_packet (frag_mgr st) p (steady env) (reassembly_memory env) 2048 0 = Inr (c, fm, buf, n)"
      "handle_data env p st2 = (if is_fragment p \<and> \<not> c then Inr (st2 \<lparr> frag_mgr := fm \<rparr>) else Inl Relock)"
    unfolding st2(3) by blast
  have "receive_step env recv st = map_sum id unlock_net (handle_data env p st2)"
    using assms(3-6) st2(1)
    by (auto simp: receive_step_def handle_packet_def lock_net_def dispatch_def DISCOVERY_def ROUTE_ADV_def ACK_def DATA_def
        Let_def split: sum.splits)
  then show ?thesis
    using d by (cases c) auto
qed

section \<open>A node just started\<close>

text \<open>The state and the environment of the concrete instances below and in the theories that follow.\<close>

definition started_node :: "mac \<Rightarrow> node" where
  "started_node m =
     \<lparr> net = \<lparr> sock_fd = 3, if_index = 2, local_mac = m, open_fds = {3} \<rparr>, my_mac = m, my_table = [],
       known_neighbors = [], seq_num = 0,
       queue = \<lparr> content = Some (rue_content []), readable = True, writable = True \<rparr>,
       net_mutex = False, base_key = replicate 32 1, pair_ciphers = [], frag_mgr = new_fragment_manager,
       g_config = default_config, pending_acks = [], next_ack_seq = 1, cleanup_counter = 0,
       received_packet = init DATA (replicate 6 0) (replicate 6 0) 0, log_text = [], sent_frames = [] \<rparr>"

definition some_env :: env where
  "some_env =
     \<lparr> time_now = 100, steady = 5, local_tm = (1, 2, 3), sendto_result = (\<lambda>p. 533), aes_memory = replicate 240 0,
       adv_memory = replicate 512 0, reassembly_memory = replicate 2048 0, decrypt_memory = replicate 1024 0,
       encrypt_memory = replicate 1024 0, junk_version = 0, junk_count = 0 \<rparr>"

lemma started_node_ok: "length m = 6 \<Longrightarrow> node_ok (started_node m)"
  by (auto simp: node_ok_def started_node_def mac_texts_def fm_ok_new AES_KEY_SIZE_def stores_def)

lemma some_env_ok: "env_ok some_env"
  by (simp add: env_ok_def some_env_def LOCAL_BUFFER_def)

section \<open>Properties\<close>

text \<open>
  Whatever frame arrives, a step of the receive loop from a consistent state either
  returns with the state consistent, the mutex free and the node's address, keys, ciphers
  and configuration unchanged, or it locks the mutex twice, and that only on a frame whose
  packet is of type \<open>DATA\<close>: no frame makes it leave a buffer.
\<close>
theorem receive_step_safe:
  assumes "node_ok st" and "env_ok env" and "\<not> net_mutex st"
  shows "(\<exists>st'. receive_step env recv st = Inr st' \<and> node_ok st' \<and> same_identity st st') \<or>
    receive_step env recv st = Inl Relock \<and> data_frame recv"
  using receive_step_safe_frame [OF assms] by (simp add: keeps_def)

theorem receive_step_safe_witness:
  "\<exists>st'. receive_step some_env (Some (replicate 60 9)) (started_node (replicate 6 7)) = Inr st' \<and> node_ok st'"
proof -
  have "\<not> net_mutex (started_node (replicate 6 7))"
    by (simp add: started_node_def)
  moreover have "\<not> data_frame (Some (replicate 60 9))"
    by (simp add: data_frame_def DATA_def)
  ultimately show ?thesis
    using receive_step_safe [OF started_node_ok some_env_ok, of "replicate 6 7" "Some (replicate 60 9)"] by auto
qed

text \<open>
  The node never decrypts a \<open>DATA\<close> packet: the handler holds \<open>net_mutex\<close> and
  \<open>get_pair_cipher\<close> locks it again, so a packet that is not a fragment always ends in the
  double lock, and the step returns only for a fragment whose message stays incomplete.
\<close>
theorem data_packet_deadlocks:
  assumes "node_ok st" and "env_ok env" and "\<not> net_mutex st"
    and "receive_packet (net st) (received_packet st) recv = (True, p)"
    and "source (header p) \<noteq> my_mac st" and "ptype (header p) = DATA"
  shows "if is_fragment p
    then receive_step env recv st = Inl Relock \<or>
      (\<exists>fm buf n. reassemble_packet (frag_mgr st) p (steady env) (reassembly_memory env) 2048 0 = Inr (False, fm, buf, n))
    else receive_step env recv st = Inl Relock"
  using assms by (rule data_step)

theorem data_packet_deadlocks_witness:
  "receive_step some_env (Some (replicate 14 0 @ packet_bytes (init DATA (replicate 6 1) (replicate 6 7) 9)))
      (started_node (replicate 6 7)) = Inl Relock"
proof -
  let ?st = "started_node (replicate 6 7)" and ?p = "init DATA (replicate 6 1) (replicate 6 7) 9"
  have fd: "0 \<le> sock_fd (net ?st)" and mutex: "\<not> net_mutex ?st" and my: "my_mac ?st = replicate 6 7"
    by (simp_all add: started_node_def)
  have wf: "wf_packet ?p" "wf_packet (received_packet ?st)" "length (replicate 14 (0 :: u8)) = 14"
      "unat (payload_len (header ?p)) \<le> MAX_PAYLOAD_SIZE"
    by (simp_all add: started_node_def)
  have "receive_packet (net ?st) (received_packet ?st) (Some (replicate 14 0 @ packet_bytes ?p)) =
      (True, ?p \<lparr> payload := overwrite (payload (received_packet ?st)) 0 (payload_bytes ?p) \<rparr>)"
    by (rule receive_framed [OF wf(1,2,4,3) fd])
  then show ?thesis
    using data_packet_deadlocks [OF started_node_ok some_env_ok mutex, of "Some (replicate 14 0 @ packet_bytes ?p)"]
    by (simp add: is_fragment_iff my)
qed

text \<open>
  C31: A message short enough for one packet is taken for a fragment whenever the fourth
  byte of its initialisation vector, bits 12 to 19 of the sender's clock, is above 1: the
  receiver of a message identifier it does not know then files the whole ciphertext as an
  incomplete message and never decrypts it.
\<close>
theorem short_message_taken_for_fragment:
  assumes "length x \<le> 463" and "length out = LOCAL_BUFFER" and "encrypt_payload rk now x out = Inr e"
    and "fragment_message fm e DATA src dst seq = (pkts, fm', seq')" and "length src = 6" and "length dst = 6"
  shows "\<exists>p. pkts = [p] \<and> payload_bytes p = e \<and>
    (is_fragment p \<longleftrightarrow> 1 < (ucast (signed_drop_bit 12 now AND 0xFF) :: u8)) \<and>
    (is_fragment p \<and> m_find (partials rm) (msg_id (frag_header_of p)) = None \<longrightarrow>
      (\<exists>rm'. reassemble_packet rm p t buf max_out ol = Inr (False, rm', buf, ol)))"
proof -
  from payload_codec [of x out 1007 rk now] assms(1-3)
  have e: "take 16 e = generate_iv now" "length e = 16 + ((length x + 16) div 16) * 16"
    by auto
  then have len: "32 \<le> length e" "length e \<le> 480"
    using assms(1) padded_length(1) [of "length x"] by simp_all
  let ?p = "set_payload (init DATA src dst seq) e"
  have p: "pkts = [?p]"
    using assms(4) len(2) by (simp add: fragment_message_def frag_sizes)
  have n: "unat (payload_len (header ?p)) = length e"
    using len by (simp add: unat_of_nat_u16)
  have "frag_total (frag_header_of ?p) = e ! 3"
    using len by (intro frag_total_of_payload) simp_all
  also have "e ! 3 = take 16 e ! 3"
    by simp
  also have "\<dots> = ucast (signed_drop_bit 12 now AND 0xFF)"
    by (simp only: e(1) iv_byte_3)
  finally have frag: "is_fragment ?p \<longleftrightarrow> 1 < (ucast (signed_drop_bit 12 now AND 0xFF) :: u8)"
    using n len by (simp add: is_fragment_iff)
  have wf: "wf_packet ?p"
    using len assms(5,6) by (simp add: MAX_PAYLOAD_SIZE_def)
  have fits: "unat (payload_len (header ?p)) \<le> length (payload ?p)"
    unfolding n using len wf by (simp add: wf_packet_def MAX_PAYLOAD_SIZE_def)
  have wait: "\<exists>rm'. reassemble_packet rm ?p t buf max_out ol = Inr (False, rm', buf, ol)"
    if "is_fragment ?p \<and> m_find (partials rm) (msg_id (frag_header_of ?p)) = None"
    using first_fragment_waits [OF fits conjunct1 [OF that] conjunct2 [OF that], of t buf max_out ol] by (rule exI)
  have "payload_bytes ?p = e"
    using len by (simp add: MAX_PAYLOAD_SIZE_def)
  then show ?thesis
    by (intro exI [of _ ?p] conjI impI p frag wait) simp_all
qed

theorem short_message_taken_for_fragment_witness:
  "\<exists>e p fm' seq' rm'. encrypt_payload (replicate 240 3) 0x2000 (replicate 100 7) (replicate 1024 0) = Inr e \<and>
    fragment_message new_fragment_manager e DATA (replicate 6 1) (replicate 6 2) 5 = ([p], fm', seq') \<and>
    payload_bytes p = e \<and> reassemble_packet new_fragment_manager p 0 (replicate 2048 0) 2048 0 = Inr (False, rm', replicate 2048 0, 0)"
proof -
  have x: "length (replicate 100 (7 :: u8)) \<le> 463" "length (replicate 1024 (0 :: u8)) = LOCAL_BUFFER"
      "length (replicate 100 (7 :: u8)) \<le> 1007" "length (replicate 6 (1 :: u8)) = 6" "length (replicate 6 (2 :: u8)) = 6"
    by (simp_all only: length_replicate LOCAL_BUFFER_def)
  obtain e where e: "encrypt_payload (replicate 240 3) 0x2000 (replicate 100 7) (replicate 1024 0) = Inr e"
    using payload_codec [OF x(3,2), of 1007] x(3) by blast
  obtain pkts fm' seq' where f: "fragment_message new_fragment_manager e DATA (replicate 6 1) (replicate 6 2) 5 = (pkts, fm', seq')"
    by (metis prod_cases3)
  obtain p where p: "pkts = [p]" "payload_bytes p = e"
      "is_fragment p \<longleftrightarrow> 1 < (ucast (signed_drop_bit 12 (0x2000 :: u64) AND 0xFF) :: u8)"
      "is_fragment p \<and> m_find (partials new_fragment_manager) (msg_id (frag_header_of p)) = None \<longrightarrow>
        (\<exists>rm'. reassemble_packet new_fragment_manager p 0 (replicate 2048 0) 2048 0 = Inr (False, rm', replicate 2048 0, 0))"
    using short_message_taken_for_fragment [OF x(1,2) e f x(4,5), of new_fragment_manager 0 "replicate 2048 0" 2048 0] by blast
  have "1 < (ucast (signed_drop_bit 12 (0x2000 :: u64) AND 0xFF) :: u8)"
    by code_simp
  then have "\<exists>rm'. reassemble_packet new_fragment_manager p 0 (replicate 2048 0) 2048 0 = Inr (False, rm', replicate 2048 0, 0)"
    using p(3,4) by (simp add: new_fragment_manager_def)
  with e f p(1,2) show ?thesis by blast
qed

end
