(* ===== verification/Loop.thy ===== *)
theory Loop
  imports Handler
begin

text \<open>
  The rest of \<open>network_loop\<close> in \<open>src/araba_node.cpp\<close>: the \<open>DISCOVERY\<close> packet that opens
  an iteration, the receive loop, the sweep over the messages that wait for an
  acknowledgement, and the expiry of fragments every hundredth iteration.

  An iteration is given the environments of its parts and what the kernel delivers to each
  of the at most ten receive steps; there are fewer when \<open>running\<close> is cleared meanwhile.
\<close>

definition broadcast :: mac where "broadcast = replicate 6 0xFF"

definition send_hello :: "env \<Rightarrow> node \<Rightarrow> node" where
  "send_hello env st =
     (let hello_pkt = init DISCOVERY (my_mac st) broadcast (seq_num st);
          st = next_seq st;
          hello_pkt = hello_pkt \<lparr> header := (header hello_pkt) \<lparr> ttl := discovery_ttl (g_config st) \<rparr> \<rparr>;
          hello_pkt = set_payload hello_pkt (string_bytes ''ARABA Hello!'')
      in transmit env hello_pkt broadcast st)"

fun receive_loop :: "(env \<times> bytes option) list \<Rightarrow> node \<Rightarrow> fault + node" where
  "receive_loop [] st = Inr st"
| "receive_loop ((env, recv) # rs) st =
     (case receive_step env recv st of Inl e \<Rightarrow> Inl e | Inr st' \<Rightarrow> receive_loop rs st')"

section \<open>Messages without acknowledgement\<close>

definition failed_msg :: "pending_ack \<Rightarrow> string" where
  "failed_msg pa = ''DELIVERY FAILED to '' @ mac_to_string (ack_dest pa) @ '' after 3 retries: '' @ original_msg pa"

definition retry_msg :: "pending_ack \<Rightarrow> string" where
  "retry_msg pa = ''RETRY '' @ show_dec (unat (retries pa) + 1) @ '' for seq '' @
     show_dec (unat (ack_seq_num pa)) @ '' to '' @ mac_to_string (ack_dest pa)"

text \<open>The loop over \<open>pending_acks\<close>: the entries that stay, and the state with its log.\<close>

fun retry_loop :: "env \<Rightarrow> (u32, pending_ack) std_map \<Rightarrow> node \<Rightarrow> (u32, pending_ack) std_map \<times> node" where
  "retry_loop env [] st = ([], st)"
| "retry_loop env ((k, pa) # ps) st =
     (let now = steady env;
          age = whole_seconds (now - sent_time pa)
      in if age > 3 then
           (if retries pa \<ge> 3 then retry_loop env ps (log_event env (failed_msg pa) st)
            else
              (let (ps', st') = retry_loop env ps (log_event env (retry_msg pa) st)
               in ((k, pa \<lparr> retries := retries pa + 1, sent_time := now \<rparr>) # ps', st')))
         else (let (ps', st') = retry_loop env ps st in ((k, pa) # ps', st')))"

definition retry_sweep :: "env \<Rightarrow> node \<Rightarrow> node" where
  "retry_sweep env st = (let (ps, st') = retry_loop env (pending_acks st) st in st' \<lparr> pending_acks := ps \<rparr>)"

section \<open>One iteration\<close>

definition cleanup_tick :: "env \<Rightarrow> node \<Rightarrow> node" where
  "cleanup_tick env st =
     (let st = st \<lparr> cleanup_counter := cleanup_counter st + 1 \<rparr>
      in if cleanup_counter st \<ge> 100
         then st \<lparr> frag_mgr := cleanup_stale (frag_mgr st) (steady env) (fragment_timeout_sec (g_config st)),
                   cleanup_counter := 0 \<rparr>
         else st)"

record iteration =
  hello_env :: env
  receives :: "(env \<times> bytes option) list"
  sweep_env :: env

definition loop_iteration :: "iteration \<Rightarrow> node \<Rightarrow> fault + node" where
  "loop_iteration it st =
     (case receive_loop (take 10 (receives it)) (send_hello (hello_env it) st) of
        Inl e \<Rightarrow> Inl e
      | Inr st' \<Rightarrow> Inr (cleanup_tick (sweep_env it) (retry_sweep (sweep_env it) st')))"

text \<open>\<open>network_loop\<close> for the iterations until \<open>running\<close> is cleared.\<close>

fun iterate :: "iteration list \<Rightarrow> node \<Rightarrow> fault + node" where
  "iterate [] st = Inr st"
| "iterate (it # its) st = (case loop_iteration it st of Inl e \<Rightarrow> Inl e | Inr st' \<Rightarrow> iterate its st')"

definition network_loop :: "env \<Rightarrow> iteration list \<Rightarrow> env \<Rightarrow> node \<Rightarrow> fault + node" where
  "network_loop start_env its stop_env st =
     (let (_, m) = get_local_mac (net st) (my_mac st);
          st = st \<lparr> my_mac := m \<rparr>;
          st = log_event start_env (''Network loop started on '' @ mac_to_string m) st
      in case iterate its st of
           Inl e \<Rightarrow> Inl e
         | Inr st' \<Rightarrow> Inr (log_event stop_env ''Network loop stopped.'' st'))"

section \<open>The sweep, entry by entry\<close>

definition retry_entry :: "int \<Rightarrow> pending_ack \<Rightarrow> pending_ack option" where
  "retry_entry now pa =
     (if whole_seconds (now - sent_time pa) > 3
      then if retries pa \<ge> 3 then None else Some (pa \<lparr> retries := retries pa + 1, sent_time := now \<rparr>)
      else Some pa)"

lemma retry_loop_map:
  "fst (retry_loop env ps st) =
    concat (map (\<lambda>(k, pa). case retry_entry (steady env) pa of None \<Rightarrow> [] | Some pa' \<Rightarrow> [(k, pa')]) ps)"
proof (induction ps arbitrary: st)
  case (Cons p ps)
  then show ?case
    by (cases p) (simp add: retry_entry_def Let_def split_beta)
qed simp

lemma retry_loop_state: "\<exists>lt. snd (retry_loop env ps st) = st \<lparr> log_text := lt \<rparr>"
proof (induction ps arbitrary: st)
  case Nil
  show ?case by (rule exI [of _ "log_text st"]) simp
next
  case (Cons p ps)
  obtain k pa where p: "p = (k, pa)" by (cases p)
  have "\<exists>lt. snd (retry_loop env ps (log_event env m st)) = st \<lparr> log_text := lt \<rparr>" for m
    using Cons [of "log_event env m st"] by (simp add: log_event_def)
  then show ?case
    using Cons [of st] by (simp add: p Let_def split_beta)
qed

lemma map_of_concat_option:
  "distinct (map fst ps) \<Longrightarrow>
    map_of (concat (map (\<lambda>(k, v). case f v of None \<Rightarrow> [] | Some v' \<Rightarrow> [(k, v')]) ps)) k = Option.bind (map_of ps k) f"
proof (induction ps)
  case Nil
  then show ?case by simp
next
  case (Cons p ps)
  obtain j v where p: "p = (j, v)" by (cases p)
  have "map_of ps j = None"
    using Cons.prems by (auto simp: p map_of_eq_None_iff)
  then show ?case
    using Cons by (auto simp: p split: option.splits)
qed

lemma keys_concat_option:
  "sorted_wrt (<) (map fst ps) \<Longrightarrow>
    sorted_wrt (<) (map fst (concat (map (\<lambda>(k, v). case f v of None \<Rightarrow> [] | Some v' \<Rightarrow> [(k, v')]) ps)))"
  for f :: "'b \<Rightarrow> 'b option"
proof (induction ps)
  case Nil
  then show ?case by simp
next
  case (Cons p ps)
  obtain j v where p: "p = (j, v)" by (cases p)
  have "\<forall>x \<in> set (concat (map (\<lambda>(k, v). case f v of None \<Rightarrow> [] | Some v' \<Rightarrow> [(k, v')]) ps)). fst x \<in> fst ` set ps"
    by (force split: option.splits)
  then show ?case
    using Cons by (fastforce simp: p split: option.splits)
qed

lemma m_find_retry_sweep:
  assumes "m_ok (pending_acks st)"
  shows "m_find (pending_acks (retry_sweep env st)) k = Option.bind (m_find (pending_acks st) k) (retry_entry (steady env))"
  using map_of_concat_option [of "pending_acks st" "retry_entry (steady env)" k] m_ok_distinct [OF assms]
  by (simp add: retry_sweep_def m_find_def retry_loop_map split_beta)

lemma m_ok_retry_sweep: "m_ok (pending_acks st) \<Longrightarrow> m_ok (pending_acks (retry_sweep env st))"
  using keys_concat_option [of "pending_acks st" "retry_entry (steady env)"]
  by (simp add: retry_sweep_def m_ok_def retry_loop_map split_beta)

lemma retry_sweep_other:
  "\<exists>lt ps. retry_sweep env st = st \<lparr> log_text := lt, pending_acks := ps \<rparr>"
proof -
  obtain lt where "snd (retry_loop env (pending_acks st) st) = st \<lparr> log_text := lt \<rparr>"
    using retry_loop_state by blast
  then have "retry_sweep env st = st \<lparr> log_text := lt, pending_acks := fst (retry_loop env (pending_acks st) st) \<rparr>"
    by (simp add: retry_sweep_def split_beta)
  then show ?thesis by blast
qed

section \<open>Many sweeps\<close>

fun sweeps :: "(nat \<Rightarrow> env) \<Rightarrow> nat \<Rightarrow> node \<Rightarrow> node" where
  "sweeps e 0 st = st"
| "sweeps e (Suc n) st = retry_sweep (e n) (sweeps e n st)"

fun entry_after :: "(nat \<Rightarrow> int) \<Rightarrow> nat \<Rightarrow> pending_ack option \<Rightarrow> pending_ack option" where
  "entry_after ts 0 x = x"
| "entry_after ts (Suc n) x = Option.bind (entry_after ts n x) (retry_entry (ts n))"

lemma m_ok_sweeps: "m_ok (pending_acks st) \<Longrightarrow> m_ok (pending_acks (sweeps e n st))"
  by (induction n) (simp_all add: m_ok_retry_sweep)

lemma m_find_sweeps:
  "m_ok (pending_acks st) \<Longrightarrow>
    m_find (pending_acks (sweeps e n st)) k = entry_after (\<lambda>i. steady (e i)) n (m_find (pending_acks st) k)"
  by (induction n) (simp_all add: m_find_retry_sweep m_ok_sweeps)

lemma whole_seconds_gt_3: "whole_seconds d > 3 \<longleftrightarrow> 4000000000 \<le> d"
  by (auto simp: whole_seconds_def)

lemma retry_entry_due:
  "retry_entry now pa =
    (if 4000000000 \<le> now - sent_time pa
     then if retries pa \<ge> 3 then None else Some (pa \<lparr> retries := retries pa + 1, sent_time := now \<rparr>)
     else Some pa)"
  by (simp add: retry_entry_def whole_seconds_gt_3)

lemma entry_after_add: "entry_after ts (m + n) x = entry_after (\<lambda>i. ts (m + i)) n (entry_after ts m x)"
  by (induction n) simp_all

lemma entry_after_None [simp]: "entry_after ts n None = None"
  by (induction n) simp_all

text \<open>Nothing happens to an entry until the first sweep at which it is due.\<close>

lemma entry_after_waiting:
  "\<forall>i < n. ts i - sent_time pa < 4000000000 \<Longrightarrow> entry_after ts n (Some pa) = Some pa"
  by (induction n) (auto simp: retry_entry_due)

definition unbounded :: "(nat \<Rightarrow> int) \<Rightarrow> bool" where
  "unbounded ts \<longleftrightarrow> (\<forall>b. \<exists>n. b \<le> ts n)"

lemma unbounded_shift:
  assumes "unbounded ts"
  shows "unbounded (\<lambda>i. ts (m + i))"
  unfolding unbounded_def
proof
  fix b
  let ?b = "max b (Max (insert 0 (ts ` {..<m})) + 1)"
  obtain n where n: "?b \<le> ts n"
    using assms unfolding unbounded_def by blast
  have "m \<le> n"
  proof (rule ccontr)
    assume "\<not> m \<le> n"
    then have "ts n \<le> Max (insert 0 (ts ` {..<m}))"
      by (intro Max_ge) auto
    with n show False by simp
  qed
  then show "\<exists>i. b \<le> ts (m + i)"
    using n by (intro exI [of _ "n - m"]) simp
qed

text \<open>The retries an entry has left.\<close>

definition retries_left :: "pending_ack \<Rightarrow> nat" where
  "retries_left pa = 3 - unat (retries pa)"

lemma entry_given_up: "unbounded ts \<Longrightarrow> \<exists>n. entry_after ts n (Some pa) = None"
proof (induction "retries_left pa" arbitrary: pa ts rule: less_induct)
  case less
  obtain n where "sent_time pa + 4000000000 \<le> ts n"
    using less.prems unfolding unbounded_def by blast
  then have ex: "\<exists>n. 4000000000 \<le> ts n - sent_time pa"
    by (intro exI [of _ n]) simp
  define n0 where "n0 = (LEAST n. 4000000000 \<le> ts n - sent_time pa)"
  have due: "4000000000 \<le> ts n0 - sent_time pa"
    unfolding n0_def by (rule LeastI_ex [OF ex])
  have "\<forall>i < n0. ts i - sent_time pa < 4000000000"
    using not_less_Least [of _ "\<lambda>n. 4000000000 \<le> ts n - sent_time pa"] by (auto simp: n0_def not_le)
  then have wait: "entry_after ts n0 (Some pa) = Some pa"
    by (rule entry_after_waiting)
  show ?case
  proof (cases "retries pa \<ge> 3")
    case True
    then have "entry_after ts (Suc n0) (Some pa) = None"
      using wait due by (simp add: retry_entry_due)
    then show ?thesis by blast
  next
    case False
    let ?pa = "pa \<lparr> retries := retries pa + 1, sent_time := ts n0 \<rparr>"
    have step: "entry_after ts (Suc n0) (Some pa) = Some ?pa"
      using wait due False by (simp add: retry_entry_due)
    have "unat (retries pa) < 3"
      using False by (simp add: word_le_nat_alt not_le)
    moreover from this have "unat (retries pa + 1) = unat (retries pa) + 1"
      by (simp add: unat_word_ariths)
    ultimately have "retries_left ?pa < retries_left pa"
      by (simp add: retries_left_def)
    then obtain m where "entry_after (\<lambda>i. ts (Suc n0 + i)) m (Some ?pa) = None"
      using less.hyps unbounded_shift [OF less.prems] by blast
    then have "entry_after ts (Suc n0 + m) (Some pa) = None"
      by (simp only: entry_after_add step)
    then show ?thesis by blast
  qed
qed

section \<open>Iterations keep the state consistent\<close>

lemma send_hello_keeps: "node_ok st \<Longrightarrow> keeps st (send_hello env st)"
  by (simp add: send_hello_def Let_def keeps_def)

lemma receive_loop_keeps:
  assumes "node_ok st" and "\<forall>(env, recv) \<in> set rs. env_ok env" and "\<not> net_mutex st"
  shows "(\<exists>st'. receive_loop rs st = Inr st' \<and> keeps st st') \<or>
    receive_loop rs st = Inl Relock \<and> (\<exists>(env, recv) \<in> set rs. data_frame recv)"
  using assms
proof (induction rs st rule: receive_loop.induct)
  case (1 st)
  then show ?case by (simp add: keeps_def)
next
  case (2 env recv rs st)
  have "env_ok env" using "2.prems"(2) by simp
  from receive_step_safe_frame [OF "2.prems"(1) this "2.prems"(3), of recv] show ?case
  proof (elim disjE exE conjE)
    fix st1
    assume step: "receive_step env recv st = Inr st1" and st1: "keeps st st1"
    then have "node_ok st1" "\<not> net_mutex st1"
      using "2.prems"(3) by (simp_all add: keeps_def same_identity_def)
    then have "(\<exists>st'. receive_loop rs st1 = Inr st' \<and> keeps st1 st') \<or>
        receive_loop rs st1 = Inl Relock \<and> (\<exists>(env, recv) \<in> set rs. data_frame recv)"
      using "2.IH" [OF step] "2.prems"(2) by simp
    then show ?thesis
      using step keeps_trans [OF st1] by auto
  qed simp
qed

text \<open>What every iteration keeps, the counter of the expiry included.\<close>

definition loop_ok :: "node \<Rightarrow> bool" where
  "loop_ok st \<longleftrightarrow> node_ok st \<and> \<not> net_mutex st \<and> 0 \<le> cleanup_counter st \<and> cleanup_counter st < 100"

definition same_keys :: "node \<Rightarrow> node \<Rightarrow> bool" where
  "same_keys st st' \<longleftrightarrow> net st' = net st \<and> my_mac st' = my_mac st \<and> base_key st' = base_key st \<and>
     pair_ciphers st' = pair_ciphers st \<and> g_config st' = g_config st"

lemma same_keys_trans: "same_keys a b \<Longrightarrow> same_keys b c \<Longrightarrow> same_keys a c"
  by (simp add: same_keys_def)

definition iteration_ok :: "iteration \<Rightarrow> bool" where
  "iteration_ok it \<longleftrightarrow> (\<forall>(env, recv) \<in> set (receives it). env_ok env)"

lemma retry_sweep_keeps: "node_ok st \<Longrightarrow> keeps st (retry_sweep env st)"
proof -
  assume st: "node_ok st"
  obtain lt ps where r: "retry_sweep env st = st \<lparr> log_text := lt, pending_acks := ps \<rparr>"
    using retry_sweep_other by blast
  then have "m_ok ps"
    using m_ok_retry_sweep [of st env] st by (simp add: node_ok_def)
  then show ?thesis
    using st by (simp add: r keeps_def node_ok_def same_identity_def)
qed

lemma cleanup_tick_ok:
  "loop_ok st \<Longrightarrow> loop_ok (cleanup_tick env st) \<and> same_keys st (cleanup_tick env st)"
  by (auto simp: loop_ok_def same_keys_def cleanup_tick_def Let_def node_ok_def fm_ok_cleanup)

lemma keeps_loop_ok: "loop_ok a \<Longrightarrow> keeps a b \<Longrightarrow> loop_ok b \<and> same_keys a b"
  by (simp add: loop_ok_def keeps_def same_identity_def same_keys_def)

text \<open>An iteration with a \<open>DATA\<close> packet in its traffic.\<close>

definition with_data :: "iteration \<Rightarrow> bool" where
  "with_data it = list_ex (\<lambda>(env, recv). data_frame recv) (receives it)"

lemma loop_iteration_keeps:
  assumes "loop_ok st" and "iteration_ok it"
  shows "(\<exists>st'. loop_iteration it st = Inr st' \<and> loop_ok st' \<and> same_keys st st') \<or>
    loop_iteration it st = Inl Relock \<and> with_data it"
proof -
  let ?st1 = "send_hello (hello_env it) st"
  have st1: "loop_ok ?st1 \<and> same_keys st ?st1"
    by (rule keeps_loop_ok [OF assms(1) send_hello_keeps]) (use assms(1) in \<open>simp add: loop_ok_def\<close>)
  have "\<forall>(env, recv) \<in> set (take 10 (receives it)). env_ok env"
    using assms(2) by (auto simp: iteration_ok_def dest: in_set_takeD)
  then consider st2 where "receive_loop (take 10 (receives it)) ?st1 = Inr st2" "keeps ?st1 st2"
    | "receive_loop (take 10 (receives it)) ?st1 = Inl Relock" "\<exists>(env, recv) \<in> set (take 10 (receives it)). data_frame recv"
    using receive_loop_keeps [of ?st1 "take 10 (receives it)"] st1 by (auto simp: loop_ok_def)
  then show ?thesis
  proof cases
    case 1
    let ?st3 = "retry_sweep (sweep_env it) st2"
    have st2: "loop_ok st2 \<and> same_keys ?st1 st2"
      using st1 1(2) keeps_loop_ok by blast
    then have "keeps st2 ?st3"
      by (intro retry_sweep_keeps) (simp add: loop_ok_def)
    then have st3: "loop_ok ?st3 \<and> same_keys st2 ?st3"
      using st2 keeps_loop_ok by blast
    then have "loop_ok (cleanup_tick (sweep_env it) ?st3) \<and> same_keys ?st3 (cleanup_tick (sweep_env it) ?st3)"
      using cleanup_tick_ok by blast
    moreover from this have "same_keys st (cleanup_tick (sweep_env it) ?st3)"
      using st1 st2 st3 by (meson same_keys_trans)
    moreover have "loop_iteration it st = Inr (cleanup_tick (sweep_env it) ?st3)"
      by (simp add: loop_iteration_def 1(1))
    ultimately show ?thesis by blast
  next
    case 2
    then show ?thesis
      by (auto simp: loop_iteration_def with_data_def list_ex_iff dest: in_set_takeD)
  qed
qed

lemma iterate_keeps:
  assumes "loop_ok st" and "\<forall>it \<in> set its. iteration_ok it"
  shows "(\<exists>st'. iterate its st = Inr st' \<and> loop_ok st' \<and> same_keys st st') \<or>
    iterate its st = Inl Relock \<and> list_ex with_data its"
  using assms
proof (induction its st rule: iterate.induct)
  case (1 st)
  then show ?case by (simp add: same_keys_def)
next
  case (2 it its st)
  have "iteration_ok it" using "2.prems"(2) by simp
  from loop_iteration_keeps [OF "2.prems"(1) this] show ?case
  proof (elim disjE exE conjE)
    fix st1
    assume step: "loop_iteration it st = Inr st1" "loop_ok st1" "same_keys st st1"
    then have "(\<exists>st'. iterate its st1 = Inr st' \<and> loop_ok st' \<and> same_keys st1 st') \<or>
        iterate its st1 = Inl Relock \<and> list_ex with_data its"
      using "2.IH" [OF step(1)] "2.prems"(2) by simp
    then show ?thesis
      using step same_keys_trans [OF step(3)] by auto
  qed simp
qed

text \<open>The whole loop, started with the address \<open>main\<close> read from the interface.\<close>

lemma loop_ok_log [simp]: "loop_ok (log_event env m st) = loop_ok st" "same_keys a (log_event env m st) = same_keys a st"
    "same_keys (log_event env m st) b = same_keys st b"
  by (simp_all add: loop_ok_def same_keys_def)

lemma network_loop_keeps:
  assumes "loop_ok st" and "snd (get_local_mac (net st) (my_mac st)) = my_mac st" and "\<forall>it \<in> set its. iteration_ok it"
  shows "(\<exists>st'. network_loop e1 its e2 st = Inr st' \<and> loop_ok st' \<and> same_keys st st') \<or>
    network_loop e1 its e2 st = Inl Relock \<and> list_ex with_data its"
proof -
  let ?st = "log_event e1 (''Network loop started on '' @ mac_to_string (my_mac st)) st"
  have loop: "network_loop e1 its e2 st =
      (case iterate its ?st of Inl e \<Rightarrow> Inl e | Inr st' \<Rightarrow> Inr (log_event e2 ''Network loop stopped.'' st'))"
    using assms(2) by (simp add: network_loop_def split_beta)
  have "loop_ok ?st"
    using assms(1) by simp
  from iterate_keeps [OF this assms(3)] show ?thesis
    unfolding loop by auto
qed

section \<open>Properties\<close>

text \<open>
  C12: \<open>network_loop\<close> keeps the node's state consistent for any number of iterations and any
  traffic: tables, queue file, fragments and pending messages stay well formed, the mutex is
  free between steps, the node's address, keys, cached ciphers and configuration never
  change, and the expiry counter stays below 100.  The one way out is the double lock of
  \<open>net_mutex\<close>, and only traffic with a \<open>DATA\<close> packet leads there.
\<close>
theorem network_loop_invariant:
  assumes "loop_ok st" and "snd (get_local_mac (net st) (my_mac st)) = my_mac st" and "\<forall>it \<in> set its. iteration_ok it"
  shows "(\<exists>st'. network_loop e1 its e2 st = Inr st' \<and> node_ok st' \<and> \<not> net_mutex st' \<and> same_keys st st' \<and>
      0 \<le> cleanup_counter st' \<and> cleanup_counter st' < 100) \<or>
    network_loop e1 its e2 st = Inl Relock \<and> list_ex with_data its"
  using network_loop_keeps [OF assms] by (auto simp: loop_ok_def)

theorem network_loop_invariant_witness:
  "\<exists>st'. network_loop some_env
      [\<lparr> hello_env = some_env, receives = [(some_env, None), (some_env, Some (replicate 40 9))], sweep_env = some_env \<rparr>]
      some_env (started_node (replicate 6 7)) = Inr st' \<and> node_ok st' \<and> cleanup_counter st' < 100"
proof -
  let ?it = "\<lparr> hello_env = some_env, receives = [(some_env, None), (some_env, Some (replicate 40 9))], sweep_env = some_env \<rparr>"
  have "loop_ok (started_node (replicate 6 7))"
    using started_node_ok [of "replicate 6 7"] by (simp add: loop_ok_def) (simp add: started_node_def)
  moreover have "snd (get_local_mac (net (started_node (replicate 6 7))) (my_mac (started_node (replicate 6 7)))) =
      my_mac (started_node (replicate 6 7))"
    by (simp add: started_node_def get_local_mac_def)
  moreover have "\<forall>it \<in> set [?it]. iteration_ok it"
    by (simp add: iteration_ok_def some_env_ok)
  moreover have "\<not> list_ex with_data [?it]"
    by (simp add: with_data_def data_frame_def DATA_def)
  ultimately show ?thesis
    using network_loop_invariant by blast
qed

text \<open>
  C19: A message without acknowledgement is given up: as long as the sweeps go on and the
  clock with them, there is a sweep after which the message is no longer pending, however
  the sweeps are spaced.
\<close>
theorem unacknowledged_message_given_up:
  assumes "m_ok (pending_acks st)" and "\<forall>b. \<exists>n. b \<le> steady (e n)"
  shows "\<exists>n. m_find (pending_acks (sweeps e n st)) k = None"
proof (cases "m_find (pending_acks st) k")
  case None
  then have "m_find (pending_acks (sweeps e 0 st)) k = None" by simp
  then show ?thesis by blast
next
  case (Some pa)
  then show ?thesis
    using entry_given_up [of "\<lambda>i. steady (e i)" pa] assms by (simp add: m_find_sweeps unbounded_def)
qed

theorem unacknowledged_message_given_up_witness:
  "\<exists>n. m_find (pending_acks (sweeps (\<lambda>n. some_env \<lparr> steady := int n * 2000000000 \<rparr>) n
      (started_node (replicate 6 7) \<lparr> pending_acks :=
        [(1, \<lparr> ack_dest = replicate 6 1, retries = 0, sent_time = 0, original_msg = ''hi'', ack_seq_num = 1 \<rparr>)] \<rparr>))) 1 = None"
proof (rule unacknowledged_message_given_up)
  show "m_ok (pending_acks (started_node (replicate 6 7) \<lparr> pending_acks :=
        [(1, \<lparr> ack_dest = replicate 6 1, retries = 0, sent_time = 0, original_msg = ''hi'', ack_seq_num = 1 \<rparr>)] \<rparr>))"
    by (simp add: m_ok_def)
  show "\<forall>b. \<exists>n. b \<le> steady (some_env \<lparr> steady := int n * 2000000000 \<rparr>)"
  proof
    fix b :: int
    show "\<exists>n. b \<le> steady (some_env \<lparr> steady := int n * 2000000000 \<rparr>)"
      by (rule exI [of _ "nat b"]) simp
  qed
qed

text \<open>
  A sweep resends nothing: it writes to the log, counts a retry and restarts the clock
  of each message whose last attempt is at least four seconds old, and drops one that had
  three retries; everything else, the frames sent included, stays.
\<close>
theorem sweep_only_counts:
  assumes "m_ok (pending_acks st)"
  shows "(\<exists>lt ps. retry_sweep env st = st \<lparr> log_text := lt, pending_acks := ps \<rparr>) \<and>
    m_find (pending_acks (retry_sweep env st)) k =
      (case m_find (pending_acks st) k of None \<Rightarrow> None
       | Some pa \<Rightarrow>
           if steady env - sent_time pa < 4000000000 then Some pa
           else if retries pa < 3 then Some (pa \<lparr> retries := retries pa + 1, sent_time := steady env \<rparr>)
           else None)"
  using retry_sweep_other [of env st] m_find_retry_sweep [OF assms, of env k]
  by (auto simp: retry_entry_due not_less not_le split: option.splits)

theorem sweep_only_counts_witness:
  "m_find (pending_acks (retry_sweep (some_env \<lparr> steady := 3999999999 \<rparr>)
      (started_node (replicate 6 7) \<lparr> pending_acks :=
        [(1, \<lparr> ack_dest = replicate 6 1, retries = 0, sent_time = 0, original_msg = ''hi'', ack_seq_num = 1 \<rparr>)] \<rparr>))) 1 =
    Some \<lparr> ack_dest = replicate 6 1, retries = 0, sent_time = 0, original_msg = ''hi'', ack_seq_num = 1 \<rparr>"
proof -
  let ?st = "started_node (replicate 6 7) \<lparr> pending_acks :=
      [(1, \<lparr> ack_dest = replicate 6 1, retries = 0, sent_time = 0, original_msg = ''hi'', ack_seq_num = 1 \<rparr>)] \<rparr>"
  have "m_ok (pending_acks ?st)"
    by (simp add: m_ok_def)
  from sweep_only_counts [OF this, of "some_env \<lparr> steady := 3999999999 \<rparr>" 1] show ?thesis
    by (simp add: m_find_def)
qed

end
