(* ===== verification/Commands.thy ===== *)
theory Commands
  imports Loop
begin

text \<open>
  The command thread of \<open>src/araba_node.cpp\<close>: the start of \<open>main\<close>, its command loop and
  what each command prints or changes.  A command line is the text \<open>std::getline\<close> read;
  the output is text.
\<close>

section \<open>Text\<close>

definition newline :: string where "newline = [CHR 0x0A]"

definition quote_mark :: string where "quote_mark = [CHR 0x22]"

definition show_int :: "int \<Rightarrow> string" where
  "show_int i = (if i < 0 then CHR ''-'' # show_dec (nat (- i)) else show_dec (nat i))"

text \<open>\<open>line.find(pattern) != npos\<close>.\<close>

definition contains :: "string \<Rightarrow> string \<Rightarrow> bool" where
  "contains pattern line =
     list_ex (\<lambda>i. take (length pattern) (drop i line) = pattern) [0..<Suc (length line)]"

definition print_usage :: string where
  "print_usage =
     newline @ ''--- ARABA Commands ---'' @ newline @
     ''  send <mac_address> <message>'' @ newline @
     ''  list     - Show known neighbors'' @ newline @
     ''  table    - Show routing table'' @ newline @
     ''  status   - Show last 10 log events'' @ newline @
     ''  receive  - Check for messages sent to you'' @ newline @
     ''  queue    - Show pending .rue messages'' @ newline @
     ''  pending  - Show messages waiting for ACK'' @ newline @
     ''  quit     - Stop the node'' @ newline @
     ''------------------------'' @ newline @ newline"

section \<open>Commands that print\<close>

text \<open>A scope guarded by \<open>lock_guard\<close>.\<close>

definition with_lock :: "(node \<Rightarrow> 'a \<times> node) \<Rightarrow> node \<Rightarrow> fault + ('a \<times> node)" where
  "with_lock f st =
     (case lock_net st of
        Inl e \<Rightarrow> Inl e
      | Inr st \<Rightarrow> (let (x, st) = f st in Inr (x, unlock_net st)))"

definition list_text :: "node \<Rightarrow> string" where
  "list_text st =
     ''Known Neighbors ('' @ show_dec (length (known_neighbors st)) @ ''):'' @ newline @
     concat (map (\<lambda>n. ''  - '' @ n @ newline) (known_neighbors st))"

definition rule_line :: string where "rule_line = ''-------------------------'' @ newline"

definition status_text :: "node \<Rightarrow> string" where
  "status_text st =
     (let ls = lines_of (log_text st);
          start = (if length ls > 10 then length ls - 10 else 0)
      in newline @ ''--- Recent Log Events ---'' @ newline @
         concat (map (\<lambda>l. l @ newline) (drop start ls)) @ rule_line)"

definition receive_text :: "node \<Rightarrow> string" where
  "receive_text st =
     (let ls = filter (contains ''MESSAGE RECEIVED'') (lines_of (log_text st))
      in newline @ ''--- Checking for messages ---'' @ newline @
         (if ls = [] then ''No messages yet.'' @ newline else concat (map (\<lambda>l. l @ newline) ls)) @ rule_line)"

definition pending_line :: "env \<Rightarrow> u32 \<times> pending_ack \<Rightarrow> string" where
  "pending_line env = (\<lambda>(seq, pa).
     ''  Seq '' @ show_dec (unat seq) @ '' to '' @ mac_to_string (ack_dest pa) @
     '' | Retries: '' @ show_dec (unat (retries pa)) @
     '' | Age: '' @ show_int (whole_seconds (steady env - sent_time pa)) @ ''s'' @
     '' | Msg: '' @ quote_mark @ take 40 (original_msg pa) @ ''...'' @ quote_mark @ newline)"

definition pending_text :: "env \<Rightarrow> node \<Rightarrow> string" where
  "pending_text env st =
     newline @ ''--- Pending ACKs ('' @ show_dec (length (pending_acks st)) @ '') ---'' @ newline @
     (if pending_acks st = [] then ''All messages acknowledged.'' @ newline
      else concat (map (pending_line env) (pending_acks st))) @ rule_line"

section \<open>Sending a message\<close>

text \<open>The words of \<open>send <mac_address> <message>\<close>; both are empty when they are missing.\<close>

definition send_arguments :: "string \<Rightarrow> string \<times> string" where
  "send_arguments args =
     (case scan_word args of
        None \<Rightarrow> ([], [])
      | Some (target_mac, rest) \<Rightarrow> (target_mac, takeWhile (\<lambda>c. c \<noteq> CHR 0x0A) (skip_ws rest)))"

definition reachable :: "env \<Rightarrow> string \<Rightarrow> mac \<Rightarrow> node \<Rightarrow> bool" where
  "reachable env target_mac dst st \<longleftrightarrow>
     target_mac \<in> set (known_neighbors st) \<or> find_next_hop (my_table st) dst (time_now env) \<noteq> None"

text \<open>The loop that sends the fragments, each in a critical section of its own.\<close>

fun send_fragments :: "env \<Rightarrow> mac \<Rightarrow> packet list \<Rightarrow> node \<Rightarrow> fault + node" where
  "send_fragments env dst [] st = Inr st"
| "send_fragments env dst (p # ps) st =
     (case with_lock (\<lambda>st. ((), transmit env p dst st)) st of
        Inl e \<Rightarrow> Inl e
      | Inr (_, st) \<Rightarrow> send_fragments env dst ps st)"

text \<open>The loop that queues them; the result of \<open>enqueue\<close> is ignored.\<close>

fun queue_fragments :: "env \<Rightarrow> mac \<Rightarrow> packet list \<Rightarrow> node \<Rightarrow> fault + node" where
  "queue_fragments env dst [] st = Inr st"
| "queue_fragments env dst (p # ps) st =
     (case enqueue (junk_version env) (junk_count env) (queue st) dst (payload p) (payload_len (header p)) (time_now env) of
        Inl e \<Rightarrow> Inl e
      | Inr (_, d) \<Rightarrow> queue_fragments env dst ps (st \<lparr> queue := d \<rparr>))"

text \<open>From the ciphertext on: fragments to the socket, or to the queue file.\<close>

definition dispatch_message :: "env \<Rightarrow> bool \<Rightarrow> string \<Rightarrow> mac \<Rightarrow> string \<Rightarrow> bytes \<Rightarrow> node \<Rightarrow> fault + (string \<times> node)" where
  "dispatch_message env is_reachable target_mac dst message encrypted st =
     (case fragment_message (frag_mgr st) encrypted DATA (my_mac st) dst (seq_num st) of
        (frags, fm, seq) \<Rightarrow>
          (let st = st \<lparr> frag_mgr := fm, seq_num := seq \<rparr>
           in if is_reachable then
                (let ack_seq = next_ack_seq st;
                     st = st \<lparr> next_ack_seq := next_ack_seq st + 1 \<rparr>
                 in case send_fragments env dst frags st of
                      Inl e \<Rightarrow> Inl e
                    | Inr st \<Rightarrow>
                        (let pa = \<lparr> ack_dest = dst, retries = 0, sent_time = steady env,
                                    original_msg = message, ack_seq_num = ack_seq \<rparr>
                         in case with_lock (\<lambda>st. ((), st \<lparr> pending_acks := m_put ack_seq pa (pending_acks st) \<rparr>)) st of
                              Inl e \<Rightarrow> Inl e
                            | Inr (_, st) \<Rightarrow>
                                Inr (''Sent (encrypted, '' @ show_dec (length frags) @ '' fragment(s)) to '' @ target_mac @
                                     '': '' @ quote_mark @ message @ quote_mark @ newline @
                                     ''Waiting for ACK... (check '' @ [CHR 0x27] @ ''pending'' @ [CHR 0x27] @ '' for status)'' @ newline, st)))
              else
                (case queue_fragments env dst frags st of
                   Inl e \<Rightarrow> Inl e
                 | Inr st \<Rightarrow>
                     Inr (''Target '' @ target_mac @ '' offline. '' @ show_dec (length frags) @
                          '' fragment(s) saved to .rue queue.'' @ newline, st))))"

definition send_command :: "env \<Rightarrow> string \<Rightarrow> node \<Rightarrow> fault + (string \<times> node)" where
  "send_command env args st =
     (let (target_mac, message) = send_arguments args
      in if target_mac = [] \<or> message = [] then Inr (''Usage: send <mac_address> <message>'' @ newline, st)
         else
           (let dst = string_to_mac target_mac
            in case with_lock (\<lambda>st. (reachable env target_mac dst st, st)) st of
                 Inl e \<Rightarrow> Inl e
               | Inr (is_reachable, st) \<Rightarrow>
                   (case get_pair_cipher env dst (my_mac st) st of
                      Inl e \<Rightarrow> Inl e
                    | Inr (aes, st) \<Rightarrow>
                        (case encrypt_payload aes (of_int (steady env)) (string_bytes message) (encrypt_memory env) of
                           Inl e \<Rightarrow> Inl e
                         | Inr encrypted \<Rightarrow>
                             if encrypted = [] then Inr (''Error: Encryption failed.'' @ newline, st)
                             else dispatch_message env is_reachable target_mac dst message encrypted st))))"

section \<open>The command loop\<close>

definition unknown_text :: string where
  "unknown_text = ''Unknown command. Use: send, list, table, status, receive, queue, pending, quit.'' @ newline"

text \<open>One line: whether the node goes on, what is printed, and the state.\<close>

definition run_command :: "env \<Rightarrow> string \<Rightarrow> node \<Rightarrow> fault + (bool \<times> string \<times> node)" where
  "run_command env input_line st =
     (let (command, rest) = (case scan_word input_line of None \<Rightarrow> ([], []) | Some cr \<Rightarrow> cr)
      in if command = ''quit'' \<or> command = ''exit'' then Inr (False, [], st)
         else if command = ''list'' then map_sum id (Pair True) (with_lock (\<lambda>st. (list_text st, st)) st)
         else if command = ''table'' then Inr (True, print_table (my_table st), st)
         else if command = ''status'' then Inr (True, status_text st, st)
         else if command = ''receive'' \<or> command = ''recv'' then Inr (True, receive_text st, st)
         else if command = ''queue'' then Inr (True, print_status (queue st), st)
         else if command = ''pending'' then map_sum id (Pair True) (with_lock (\<lambda>st. (pending_text env st, st)) st)
         else if command = ''send'' then map_sum id (Pair True) (send_command env rest st)
         else if command \<noteq> [] then Inr (True, unknown_text, st)
         else Inr (True, [], st))"

text \<open>The loop over standard input; it ends with the input or with \<open>quit\<close>.\<close>

fun command_loop :: "(env \<times> string) list \<Rightarrow> node \<Rightarrow> fault + (string \<times> node)" where
  "command_loop [] st = Inr (''araba> '', st)"
| "command_loop ((env, line) # ls) st =
     (case run_command env line st of
        Inl e \<Rightarrow> Inl e
      | Inr (go_on, out_text, st') \<Rightarrow>
          if go_on then map_sum id (\<lambda>(t, s). (''araba> '' @ out_text @ t, s)) (command_loop ls st')
          else Inr (''araba> '' @ out_text, st'))"

text \<open>
  \<open>main\<close> from the start of the network thread on, as the terminal sees it: the usage, the
  command loop, and, once the network thread has been joined, the closed socket.
\<close>

definition stopped_text :: "node \<Rightarrow> string" where
  "stopped_text st = newline @ ''ARABA Node stopped. Log saved to '' @ log_file (g_config st) @ newline"

definition main_session :: "(env \<times> string) list \<Rightarrow> node \<Rightarrow> fault + (string \<times> node)" where
  "main_session ls st =
     (case command_loop ls st of
        Inl e \<Rightarrow> Inl e
      | Inr (out_text, st) \<Rightarrow>
          (let st = st \<lparr> net := close_net (net st) \<rparr>
           in Inr (print_usage @ out_text @ stopped_text st, st)))"

section \<open>Start\<close>

text \<open>
  What \<open>main\<close> finds: the user, the first argument, the configuration files (\<open>None\<close> for one
  that cannot be read) and whether one can be written, the kernel and the open descriptors,
  the queue files, and the log files earlier runs left.
\<close>

record startup =
  euid :: nat
  argument :: "string option"
  config_files :: "string \<Rightarrow> string option"
  config_writable :: bool
  net_kernel :: kernel
  start_fds :: "int set"
  queue_files :: "string \<Rightarrow> disk"
  log_files :: "string \<Rightarrow> string"
  junk_magic :: bytes
  junk_packet :: packet

datatype start_result = Exit int | Running node

text \<open>The configuration \<open>main\<close> starts with.\<close>

definition config_path :: "startup \<Rightarrow> string" where
  "config_path s = (case argument s of None \<Rightarrow> ''araba.conf'' | Some a \<Rightarrow> a)"

definition startup_config :: "startup \<Rightarrow> fault + node_config" where
  "startup_config s =
     (case load_config (config_files s (config_path s)) default_config of
        Inl e \<Rightarrow> Inl e
      | Inr (loaded, c) \<Rightarrow>
          if loaded then Inr c
          else
            (let file = (if config_writable s then Some save_default_config else config_files s (config_path s))
             in map_sum id snd (load_config file c)))"

definition main_start :: "startup \<Rightarrow> fault + start_result" where
  "main_start s =
     (if euid s \<noteq> 0 then Inr (Exit 1)
      else
        (case startup_config s of
           Inl e \<Rightarrow> Inl e
         | Inr c \<Rightarrow>
             (case derive_key (passphrase c) of
                Inl e \<Rightarrow> Inl e
              | Inr key \<Rightarrow>
                  (case (if interface c \<noteq> [] then open_net (net_kernel s) (new_interface (start_fds s)) (interface c)
                         else open_auto (net_kernel s) (new_interface (start_fds s))) of
                     (ok, n) \<Rightarrow>
                       if \<not> ok then Inr (Exit 1)
                       else Inr (Running
                         \<lparr> net = n, my_mac = snd (get_local_mac n (replicate 6 0)), my_table = [], known_neighbors = [],
                           seq_num = 0, queue = rue_queue (junk_magic s) (queue_files s (queue_file c)),
                           net_mutex = False, base_key = key, pair_ciphers = [], frag_mgr = new_fragment_manager,
                           g_config = c, pending_acks = [], next_ack_seq = 1, cleanup_counter = 0,
                           received_packet = junk_packet s, log_text = log_files s (log_file c), sent_frames = [] \<rparr>)))))"

end
