(* ===== verification/Sending.thy ===== *)
theory Sending
  imports Commands
begin

text \<open>
  What \<open>send\<close> and the other commands do to the node's state: the cipher cache, the two ways
  a message leaves the command thread, the refusals, and the invariant.
\<close>

section \<open>The cipher of a pair of nodes\<close>

text \<open>The key schedule the code computes for this node and \<open>m\<close>, and the cache that holds only such.\<close>

definition pair_schedule :: "mac \<Rightarrow> mac \<Rightarrow> bytes \<Rightarrow> bytes" where
  "pair_schedule my m base = concat (map (key_word (derive_pair_key my m base)) [0..<60])"

definition cache_ok :: "node \<Rightarrow> bool" where
  "cache_ok st \<longleftrightarrow> (\<forall>k rk. m_find (pair_ciphers st) k = Some rk \<longrightarrow>
     (\<exists>m. length m = 6 \<and> k = mac_to_string m \<and> rk = pair_schedule (my_mac st) m (base_key st)))"

lemma pair_schedule_sym:
  assumes "length a = 6" and "length b = 6" and "length base = AES_KEY_SIZE"
  shows "pair_schedule a b base = pair_schedule b a base"
  using derive_pair_key_eq_iff [of a b b a base] assms
  by (simp add: pair_schedule_def AES_KEY_SIZE_def insert_commute)

lemma get_pair_cipher_free:
  assumes "\<not> net_mutex st" and "env_ok env" and "cache_ok st" and "length m = 6"
  shows "\<exists>cs. get_pair_cipher env m (my_mac st) st = Inr (pair_schedule (my_mac st) m (base_key st), st \<lparr> pair_ciphers := cs \<rparr>) \<and>
    (node_ok st \<longrightarrow> node_ok (st \<lparr> pair_ciphers := cs \<rparr>)) \<and> cache_ok (st \<lparr> pair_ciphers := cs \<rparr>)"
proof (cases "m_find (pair_ciphers st) (mac_to_string m)")
  case (Some rk)
  then obtain m' where "length m' = 6" "mac_to_string m = mac_to_string m'" "rk = pair_schedule (my_mac st) m' (base_key st)"
    using assms(3) unfolding cache_ok_def by blast
  then have "rk = pair_schedule (my_mac st) m (base_key st)"
    using assms(4) by (simp add: mac_to_string_inj)
  moreover have "st \<lparr> net_mutex := False \<rparr> = st"
    using assms(1) by simp
  ultimately show ?thesis
    using assms Some
    by (intro exI [of _ "pair_ciphers st"]) (simp add: get_pair_cipher_def lock_net_def unlock_net_def)
next
  case None
  let ?rk = "pair_schedule (my_mac st) m (base_key st)"
  let ?cs = "m_put (mac_to_string m) ?rk (pair_ciphers st)"
  have "key_expansion (aes_memory env) (derive_pair_key (my_mac st) m (base_key st)) = ?rk"
    using assms(2) by (simp add: pair_schedule_def key_expansion_eq env_ok_def)
  moreover have "st \<lparr> net_mutex := False, pair_ciphers := ?cs \<rparr> = st \<lparr> pair_ciphers := ?cs \<rparr>"
    using assms(1) by simp
  ultimately have "get_pair_cipher env m (my_mac st) st = Inr (?rk, st \<lparr> pair_ciphers := ?cs \<rparr>)"
    using assms(1) None by (simp add: get_pair_cipher_def lock_net_def unlock_net_def Let_def)
  moreover have "node_ok st \<longrightarrow> node_ok (st \<lparr> pair_ciphers := ?cs \<rparr>)"
    by (simp add: node_ok_def m_ok_put)
  moreover have "cache_ok (st \<lparr> pair_ciphers := ?cs \<rparr>)"
    using assms(3,4) by (auto simp: cache_ok_def)
  ultimately show ?thesis by blast
qed

section \<open>The two ways out\<close>

lemma with_lock_free:
  "\<not> net_mutex st \<Longrightarrow> with_lock f st = Inr (fst (f (st \<lparr> net_mutex := True \<rparr>)), unlock_net (snd (f (st \<lparr> net_mutex := True \<rparr>))))"
  by (simp add: with_lock_def lock_net_def split_beta Let_def)

lemma send_fragments_eq:
  assumes "\<not> net_mutex st"
  shows "send_fragments env dst ps st =
    Inr (st \<lparr> sent_frames := sent_frames st @ frames_to env (net st) (map (\<lambda>p. (p, dst)) ps) \<rparr>)"
  using assms
proof (induction ps arbitrary: st)
  case Nil
  then show ?case by simp
next
  case (Cons p ps)
  have "unlock_net (transmit env p dst (st \<lparr> net_mutex := True \<rparr>)) =
      st \<lparr> sent_frames := sent_frames st @ snd (send_packet (net st) p dst (sendto_result env p)) \<rparr>"
    using Cons.prems by (simp add: unlock_net_def transmit_def)
  then show ?case
    using Cons by (simp add: with_lock_free)
qed

lemma frames_to_open:
  assumes "0 \<le> sock_fd n" and "if_index n \<noteq> 0"
  shows "frames_to env n ps = map (\<lambda>(p, d). \<lparr> out_index = if_index n, out_addr = d, out_bytes = packet_bytes p, accepted = (0 \<le> sendto_result env p) \<rparr>) ps"
  using assms by (induction ps) (auto simp: send_packet_def not_less)

definition sendable :: "packet \<Rightarrow> bool" where
  "sendable p \<longleftrightarrow> length (payload p) = MAX_PAYLOAD_SIZE \<and> unat (payload_len (header p)) \<le> MAX_PAYLOAD_SIZE"

lemma queue_fragments_stores:
  assumes "stores (queue st) es" and "\<forall>p \<in> set ps. sendable p" and "length dst = 6"
  shows "\<exists>d. queue_fragments env dst ps st = Inr (st \<lparr> queue := d \<rparr>) \<and>
    stores d (es @ map (\<lambda>p. queued dst (payload_bytes p) (time_now env)) ps)"
  using assms
proof (induction ps arbitrary: st es)
  case Nil
  then show ?case by (intro exI [of _ "queue st"]) simp
next
  case (Cons p ps)
  have p: "unat (payload_len (header p)) \<le> length (payload p)" "unat (payload_len (header p)) \<le> MAX_PAYLOAD_SIZE"
    using Cons.prems(2) by (simp_all add: sendable_def)
  from enqueue_stores [OF Cons.prems(1) p Cons.prems(3)] obtain d where
    d: "enqueue (junk_version env) (junk_count env) (queue st) dst (payload p) (payload_len (header p)) (time_now env) = Inr (True, d)"
      "stores d (es @ [queued dst (payload_bytes p) (time_now env)])"
    unfolding payload_bytes_def by blast
  have "stores (queue (st \<lparr> queue := d \<rparr>)) (es @ [queued dst (payload_bytes p) (time_now env)])"
    using d(2) by simp
  from Cons.IH [OF this] Cons.prems(2,3) d(1) show ?case
    by (auto simp: enqueue_def)
qed

lemma fragment_message_sendable:
  assumes "length data \<le> 1024" and "length src = 6" and "length dst = 6"
    and "fragment_message fm data ty src dst seq = (ps, fm', seq')"
  shows "(\<forall>p \<in> set ps. sendable p \<and> wf_packet p) \<and> seq' = seq + of_nat (length ps) \<and> fm' \<lparr> next_msg_id := next_msg_id fm \<rparr> = fm"
proof (cases "length data \<le> 480")
  case True
  then show ?thesis
    using assms by (auto simp: fragment_message_def frag_sizes sendable_def MAX_PAYLOAD_SIZE_def unat_of_nat_u16)
next
  case False
  then have split: "ps = map (\<lambda>k. set_payload (init ty src dst (seq + of_nat k))
        (fragment_bytes data (next_msg_id fm) (of_nat (fragment_count data)) k)) [0..<fragment_count data]"
      "fm' = fm \<lparr> next_msg_id := next_msg_id fm + 1 \<rparr>" "seq' = seq + of_nat (fragment_count data)"
    using fragment_message_split [of data fm ty src dst seq] assms(1,4) by simp_all
  have "length (fragment_bytes data mid tot k) \<le> 486" for mid tot k
    by (rule length_fragment_bytes)
  then have "sendable (set_payload (init ty src dst s) (fragment_bytes data mid tot k)) \<and>
      wf_packet (set_payload (init ty src dst s) (fragment_bytes data mid tot k))" for s mid tot k
    using assms(2,3) le_trans [of "length (fragment_bytes data mid tot k)" 486 512] le_less_trans [of "length (fragment_bytes data mid tot k)" 486 65536]
    by (simp add: sendable_def MAX_PAYLOAD_SIZE_def unat_of_nat_u16)
  then show ?thesis
    using split by auto
qed

section \<open>The send command\<close>

definition ready :: "env \<Rightarrow> node \<Rightarrow> bool" where
  "ready env st \<longleftrightarrow> node_ok st \<and> cache_ok st \<and> \<not> net_mutex st \<and> env_ok env \<and>
     0 \<le> sock_fd (net st) \<and> if_index (net st) \<noteq> 0"

text \<open>The ciphertext \<open>send\<close> makes of a message, and the packets that carry it.\<close>

definition message_cipher :: "env \<Rightarrow> node \<Rightarrow> mac \<Rightarrow> string \<Rightarrow> fault + bytes" where
  "message_cipher env st dst message =
     encrypt_payload (pair_schedule (my_mac st) dst (base_key st)) (of_int (steady env)) (string_bytes message) (encrypt_memory env)"

definition message_packets :: "node \<Rightarrow> mac \<Rightarrow> bytes \<Rightarrow> packet list" where
  "message_packets st dst enc = fst (fragment_message (frag_mgr st) enc DATA (my_mac st) dst (seq_num st))"

lemma length_string_bytes [simp, len_simps]: "length (string_bytes s) = length s"
  by (simp add: string_bytes_def)

lemma bytes_string_string_bytes [simp]: "bytes_string (string_bytes s) = s"
  by (induction s) (simp_all add: bytes_string_def string_bytes_def)

lemma not_Nil: "32 \<le> length xs \<Longrightarrow> (xs = []) = False"
  by auto

lemma message_cipher_fits:
  assumes "env_ok env" and "length message \<le> 1007"
  shows "\<exists>enc. message_cipher env st dst message = Inr enc \<and>
    length enc = 16 + ((length message + 16) div 16) * 16 \<and> 32 \<le> length enc \<and> length enc \<le> 1024"
proof -
  have out: "length (encrypt_memory env) = LOCAL_BUFFER"
    using assms(1) by (simp add: env_ok_def)
  have x: "length (string_bytes message) \<le> 1007"
    using assms(2) by simp
  obtain enc where "message_cipher env st dst message = Inr enc" "length enc = 16 + ((length message + 16) div 16) * 16"
    using payload_codec [OF x out x, of "pair_schedule (my_mac st) dst (base_key st)" "of_int (steady env)"]
    by (auto simp: message_cipher_def)
  then show ?thesis
    using assms(2) by auto
qed

lemma reachable_locked [simp]: "reachable env target dst (st \<lparr> net_mutex := b \<rparr>) = reachable env target dst st"
  by (simp add: reachable_def)

text \<open>\<open>send\<close> up to the ciphertext.\<close>

lemma send_command_start:
  assumes "ready env st" and "send_arguments args = (target, message)" and "target \<noteq> []" and "message \<noteq> []"
    and "dst = string_to_mac target"
  shows "\<exists>cs. node_ok (st \<lparr> pair_ciphers := cs \<rparr>) \<and> cache_ok (st \<lparr> pair_ciphers := cs \<rparr>) \<and>
    send_command env args st =
      (case message_cipher env st dst message of
         Inl e \<Rightarrow> Inl e
       | Inr enc \<Rightarrow>
           if enc = [] then Inr (''Error: Encryption failed.'' @ newline, st \<lparr> pair_ciphers := cs \<rparr>)
           else dispatch_message env (reachable env target dst st) target dst message enc (st \<lparr> pair_ciphers := cs \<rparr>))"
proof -
  have st: "node_ok st" "\<not> net_mutex st" "env_ok env" "cache_ok st"
    using assms(1) by (simp_all add: ready_def)
  have "length dst = 6"
    by (simp add: assms(5))
  from get_pair_cipher_free [OF st(2-4) this] obtain cs where
    cs: "get_pair_cipher env dst (my_mac st) st = Inr (pair_schedule (my_mac st) dst (base_key st), st \<lparr> pair_ciphers := cs \<rparr>)"
      "node_ok (st \<lparr> pair_ciphers := cs \<rparr>)" "cache_ok (st \<lparr> pair_ciphers := cs \<rparr>)"
    using st(1) by blast
  have "unlock_net (st \<lparr> net_mutex := True \<rparr>) = st"
    using st(2) by (simp add: unlock_net_def)
  then show ?thesis
    using cs assms(2-4) st(2) unfolding assms(5)
    by (intro exI [of _ cs]) (simp add: send_command_def with_lock_free message_cipher_def Let_def)
qed

text \<open>The state after a reachable and after an unreachable destination.\<close>

lemma dispatch_message_reachable:
  assumes "\<not> net_mutex st" and "0 \<le> sock_fd (net st)" and "if_index (net st) \<noteq> 0"
    and "fragment_message (frag_mgr st) enc DATA (my_mac st) dst (seq_num st) = (pkts, fm, seq)"
  shows "\<exists>txt. dispatch_message env True target dst message enc st = Inr (txt,
    st \<lparr> frag_mgr := fm, seq_num := seq, next_ack_seq := next_ack_seq st + 1,
      sent_frames := sent_frames st @
        map (\<lambda>p. \<lparr> out_index = if_index (net st), out_addr = dst, out_bytes = packet_bytes p,
          accepted = (0 \<le> sendto_result env p) \<rparr>) pkts,
      pending_acks := m_put (next_ack_seq st) \<lparr> ack_dest = dst, retries = 0, sent_time = steady env,
        original_msg = message, ack_seq_num = next_ack_seq st \<rparr> (pending_acks st) \<rparr>)"
  using assms by (simp add: dispatch_message_def Let_def send_fragments_eq with_lock_free unlock_net_def frames_to_open comp_def)

lemma dispatch_message_unreachable:
  assumes "stores (queue st) es" and "length dst = 6"
    and "fragment_message (frag_mgr st) enc DATA (my_mac st) dst (seq_num st) = (pkts, fm, seq)"
    and "\<forall>p \<in> set pkts. sendable p"
  shows "\<exists>txt d. dispatch_message env False target dst message enc st =
      Inr (txt, st \<lparr> frag_mgr := fm, seq_num := seq, queue := d \<rparr>) \<and>
    stores d (es @ map (\<lambda>p. queued dst (payload_bytes p) (time_now env)) pkts)"
proof -
  obtain d where "queue_fragments env dst pkts (st \<lparr> frag_mgr := fm, seq_num := seq \<rparr>) =
      Inr (st \<lparr> frag_mgr := fm, seq_num := seq, queue := d \<rparr>)"
      "stores d (es @ map (\<lambda>p. queued dst (payload_bytes p) (time_now env)) pkts)"
    using queue_fragments_stores [of "st \<lparr> frag_mgr := fm, seq_num := seq \<rparr>" es pkts dst env] assms by auto
  then show ?thesis
    using assms(3) by (intro exI conjI) (simp_all add: dispatch_message_def Let_def)
qed

lemma fm_ok_fragment_message:
  assumes "length data \<le> 1024" and "length src = 6" and "length dst = 6"
    and "fragment_message fm data ty src dst seq = (ps, fm', seq')" and "fm_ok fm"
  shows "fm_ok fm'"
proof -
  have "partials (fm' \<lparr> next_msg_id := next_msg_id fm \<rparr>) = partials fm"
    using fragment_message_sendable [OF assms(1-4)] by simp
  then show ?thesis
    using assms(5) by (simp add: fm_ok_def)
qed

section \<open>A concrete command\<close>

definition one_target :: string where "one_target = ''01:01:01:01:01:01''"

definition one_line :: string where "one_line = '' 01:01:01:01:01:01 hi''"

definition friend :: node where
  "friend = started_node (replicate 6 7) \<lparr> known_neighbors := [one_target] \<rparr>"

lemma one_target: "string_to_mac one_target = replicate 6 1" "one_target = mac_to_string (replicate 6 1)" "one_target \<noteq> []"
proof -
  have "replicate 6 1 = [1, 1, 1, 1, 1, 1 :: u8]"
    by (simp add: numeral_eq_Suc)
  moreover have "hex2 1 = ''01''"
    by (simp add: hex2_def hex_digit_def)
  ultimately show literal: "one_target = mac_to_string (replicate 6 1)"
    by (simp only: mac_to_string_eq one_target_def) simp
  show "string_to_mac one_target = replicate 6 1"
    unfolding literal by simp
  show "one_target \<noteq> []"
    by (simp add: one_target_def)
qed

lemma one_line: "send_arguments one_line = (one_target, ''hi'')"
  by (simp add: one_line_def one_target_def send_arguments_def scan_word_def skip_ws_def is_space_def Let_def)

lemma friend_fields:
  "known_neighbors friend = [one_target]" "queue friend = \<lparr> content = Some (rue_content []), readable = True, writable = True \<rparr>"
  "sent_frames friend = []" "net_mutex friend = False" "pending_acks friend = []" "next_ack_seq friend = 1"
  by (simp_all add: friend_def started_node_def)

lemma ready_started: "length m = 6 \<Longrightarrow> ready some_env (started_node m)"
  using started_node_ok [of m] some_env_ok by (simp add: ready_def cache_ok_def) (simp add: started_node_def)

lemma ready_friend: "ready some_env friend"
proof -
  have "mac_texts [one_target]"
    using one_target(2) by (auto simp: mac_texts_def intro!: exI [of _ "replicate 6 1"])
  then show ?thesis
    using ready_started [of "replicate 6 7"] by (simp add: ready_def friend_def node_ok_def cache_ok_def)
qed

lemma reachable_friend: "reachable some_env one_target (string_to_mac one_target) friend"
  by (simp add: reachable_def friend_fields)

lemma unreachable_started: "\<not> reachable some_env one_target (string_to_mac one_target) (started_node m)"
  by (simp add: reachable_def started_node_def find_next_hop_def)

lemma hi_fits: "''hi'' \<noteq> []" "length ''hi'' \<le> 1007"
  by simp_all

section \<open>Refusals\<close>

lemma message_cipher_error:
  assumes "env_ok env"
  shows "1008 \<le> length message \<and> length message \<le> 1024 \<Longrightarrow> message_cipher env st dst message = Inr []"
    and "1024 < length message \<Longrightarrow> message_cipher env st dst message = Inl Out_of_bounds"
proof -
  have out: "length (encrypt_memory env) = LOCAL_BUFFER"
    using assms by (simp add: env_ok_def)
  show "1008 \<le> length message \<and> length message \<le> 1024 \<Longrightarrow> message_cipher env st dst message = Inr []"
    unfolding message_cipher_def by (rule encrypt_payload_rejects) (simp_all add: out, simp_all add: LOCAL_BUFFER_def)
  show "1024 < length message \<Longrightarrow> message_cipher env st dst message = Inl Out_of_bounds"
    unfolding message_cipher_def by (rule encrypt_payload_overflows) (simp_all add: out, simp_all add: LOCAL_BUFFER_def)
qed

lemma send_reachable:
  assumes "ready env st" and "send_arguments args = (target, message)" and "target \<noteq> []" and "message \<noteq> []"
    and "length message \<le> 1007" and "dst = string_to_mac target" and "reachable env target dst st"
  shows "\<exists>txt st' enc. send_command env args st = Inr (txt, st') \<and> node_ok st' \<and> cache_ok st' \<and>
    message_cipher env st dst message = Inr enc \<and>
    sent_frames st' = sent_frames st @ map (\<lambda>p. \<lparr> out_index = if_index (net st), out_addr = dst,
      out_bytes = packet_bytes p, accepted = (0 \<le> sendto_result env p) \<rparr>) (message_packets st dst enc) \<and>
    seq_num st' = seq_num st + of_nat (length (message_packets st dst enc)) \<and>
    pending_acks st' = m_put (next_ack_seq st) \<lparr> ack_dest = dst, retries = 0, sent_time = steady env,
      original_msg = message, ack_seq_num = next_ack_seq st \<rparr> (pending_acks st) \<and>
    next_ack_seq st' = next_ack_seq st + 1 \<and> queue st' = queue st \<and>
    ready env st' \<and> net st' = net st \<and> my_mac st' = my_mac st \<and> base_key st' = base_key st"
proof -
  obtain enc where enc: "message_cipher env st dst message = Inr enc" "32 \<le> length enc" "length enc \<le> 1024"
    using message_cipher_fits [OF _ assms(5)] assms(1) unfolding ready_def by blast
  obtain cs where cs: "node_ok (st \<lparr> pair_ciphers := cs \<rparr>)" "cache_ok (st \<lparr> pair_ciphers := cs \<rparr>)"
      "send_command env args st = dispatch_message env True target dst message enc (st \<lparr> pair_ciphers := cs \<rparr>)"
    using send_command_start [OF assms(1-4,6)] enc(1) not_Nil [OF enc(2)] assms(7)
    by (simp only: sum.case if_False if_True) blast
  obtain pkts fm seq where f: "fragment_message (frag_mgr st) enc DATA (my_mac st) dst (seq_num st) = (pkts, fm, seq)"
    by (metis prod_cases3)
  have my: "length (my_mac st) = 6" "length dst = 6" "fm_ok (frag_mgr st)"
    using assms(1,6) by (simp_all add: ready_def node_ok_def)
  have fm: "fm_ok fm" "seq = seq_num st + of_nat (length pkts)"
    using fm_ok_fragment_message [OF enc(3) my(1,2) f my(3)] fragment_message_sendable [OF enc(3) my(1,2) f] by simp_all
  let ?pa = "\<lparr> ack_dest = dst, retries = 0, sent_time = steady env, original_msg = message, ack_seq_num = next_ack_seq st \<rparr>"
  let ?st' = "st \<lparr> pair_ciphers := cs, frag_mgr := fm, seq_num := seq, next_ack_seq := next_ack_seq st + 1,
      sent_frames := sent_frames st @
        map (\<lambda>p. \<lparr> out_index = if_index (net st), out_addr = dst, out_bytes = packet_bytes p,
          accepted = (0 \<le> sendto_result env p) \<rparr>) pkts,
      pending_acks := m_put (next_ack_seq st) ?pa (pending_acks st) \<rparr>"
  obtain out_text where "send_command env args st = Inr (out_text, ?st')"
    using dispatch_message_reachable [of "st \<lparr> pair_ciphers := cs \<rparr>" enc dst pkts fm seq env target message] f cs(3) assms(1)
    by (auto simp: ready_def)
  moreover have "node_ok ?st'" "cache_ok ?st'"
    using cs(1,2) fm(1) by (simp_all add: node_ok_def cache_ok_def m_ok_put)
  moreover have "message_packets st dst enc = pkts"
    by (simp add: message_packets_def f)
  ultimately show ?thesis
    using enc(1) fm(2) assms(1) by (intro exI [of _ out_text] exI [of _ ?st'] exI [of _ enc]) (simp add: ready_def)
qed

lemma send_unreachable:
  assumes "ready env st" and "send_arguments args = (target, message)" and "target \<noteq> []" and "message \<noteq> []"
    and "length message \<le> 1007" and "dst = string_to_mac target" and "\<not> reachable env target dst st"
    and "stores (queue st) es"
  shows "\<exists>txt st' enc. send_command env args st = Inr (txt, st') \<and> node_ok st' \<and> cache_ok st' \<and>
    message_cipher env st dst message = Inr enc \<and>
    stores (queue st') (es @ map (\<lambda>p. queued dst (payload_bytes p) (time_now env)) (message_packets st dst enc)) \<and>
    sent_frames st' = sent_frames st \<and> pending_acks st' = pending_acks st \<and> next_ack_seq st' = next_ack_seq st \<and>
    ready env st' \<and> net st' = net st \<and> my_mac st' = my_mac st \<and> base_key st' = base_key st"
proof -
  obtain enc where enc: "message_cipher env st dst message = Inr enc" "32 \<le> length enc" "length enc \<le> 1024"
    using message_cipher_fits [OF _ assms(5)] assms(1) unfolding ready_def by blast
  obtain cs where cs: "node_ok (st \<lparr> pair_ciphers := cs \<rparr>)" "cache_ok (st \<lparr> pair_ciphers := cs \<rparr>)"
      "send_command env args st = dispatch_message env False target dst message enc (st \<lparr> pair_ciphers := cs \<rparr>)"
    using send_command_start [OF assms(1-4,6)] enc(1) not_Nil [OF enc(2)] assms(7)
    by (simp only: sum.case if_False if_True) blast
  obtain pkts fm seq where f: "fragment_message (frag_mgr st) enc DATA (my_mac st) dst (seq_num st) = (pkts, fm, seq)"
    by (metis prod_cases3)
  have my: "length (my_mac st) = 6" "length dst = 6" "fm_ok (frag_mgr st)"
    using assms(1,6) by (simp_all add: ready_def node_ok_def)
  have fm: "fm_ok fm" "\<forall>p \<in> set pkts. sendable p"
    using fm_ok_fragment_message [OF enc(3) my(1,2) f my(3)] fragment_message_sendable [OF enc(3) my(1,2) f] by simp_all
  obtain out_text d where d: "send_command env args st =
      Inr (out_text, st \<lparr> pair_ciphers := cs, frag_mgr := fm, seq_num := seq, queue := d \<rparr>)"
      "stores d (es @ map (\<lambda>p. queued dst (payload_bytes p) (time_now env)) pkts)"
    using dispatch_message_unreachable [of "st \<lparr> pair_ciphers := cs \<rparr>" es dst enc pkts fm seq env target message]
      f cs(3) assms(8) my(2) fm(2) by auto
  let ?st' = "st \<lparr> pair_ciphers := cs, frag_mgr := fm, seq_num := seq, queue := d \<rparr>"
  have "node_ok ?st'" "cache_ok ?st'"
    using cs(1,2) fm(1) d(2) by (auto simp: node_ok_def cache_ok_def)
  moreover have "message_packets st dst enc = pkts"
    by (simp add: message_packets_def f)
  ultimately show ?thesis
    using enc(1) d assms(1) by (intro exI [of _ out_text] exI [of _ ?st'] exI [of _ enc]) (simp add: ready_def)
qed

section \<open>Every command\<close>

lemma send_arguments_length: "send_arguments args = (target, message) \<Longrightarrow> length message \<le> length args"
proof -
  assume a: "send_arguments args = (target, message)"
  have drop: "length (dropWhile P (dropWhile Q xs)) \<le> length xs" for P Q and xs :: string
    by (rule le_trans [OF length_dropWhile_le length_dropWhile_le])
  show ?thesis
  proof (cases "scan_word args")
    case None
    then show ?thesis using a by (simp add: send_arguments_def)
  next
    case (Some p)
    then have "message = takeWhile (\<lambda>c. c \<noteq> CHR 0x0A) (skip_ws (snd p))" "snd p = dropWhile (\<lambda>c. \<not> is_space c) (skip_ws args)"
      using a by (auto simp: send_arguments_def scan_word_def Let_def split: if_splits prod.splits)
    then have "length message \<le> length (skip_ws (snd p))" "length (skip_ws (snd p)) \<le> length (snd p)" "length (snd p) \<le> length args"
      using drop by (simp_all add: length_takeWhile_le skip_ws_def length_dropWhile_le)
    then show ?thesis by simp
  qed
qed

lemma scan_word_length: "scan_word s = Some (w, r) \<Longrightarrow> length r \<le> length s"
proof -
  assume "scan_word s = Some (w, r)"
  then have "r = dropWhile (\<lambda>c. \<not> is_space c) (dropWhile is_space s)"
    by (auto simp: scan_word_def skip_ws_def Let_def split: if_splits)
  then show "length r \<le> length s"
    using le_trans [OF length_dropWhile_le length_dropWhile_le] by simp
qed

text \<open>A state that differs at most in what commands may change.\<close>

definition same_node :: "node \<Rightarrow> node \<Rightarrow> bool" where
  "same_node st st' \<longleftrightarrow> net st' = net st \<and> my_mac st' = my_mac st \<and> base_key st' = base_key st"

lemma send_command_keeps:
  assumes "ready env st"
  shows "(\<exists>out_text st'. send_command env args st = Inr (out_text, st') \<and> ready env st' \<and> same_node st st') \<or>
    send_command env args st = Inl Out_of_bounds \<and> 1024 < length args"
proof -
  obtain target message where args: "send_arguments args = (target, message)"
    by (cases "send_arguments args")
  show ?thesis
  proof (cases "target = [] \<or> message = []")
    case True
    then have "send_command env args st = Inr (''Usage: send <mac_address> <message>'' @ newline, st)"
      using args by (simp add: send_command_def)
    then show ?thesis
      using assms by (simp add: same_node_def)
  next
    case False
    then have ne: "target \<noteq> []" "message \<noteq> []" by auto
    have env: "env_ok env" using assms by (simp add: ready_def)
    let ?dst = "string_to_mac target"
    obtain es where es: "stores (queue st) es"
      using assms by (auto simp: ready_def node_ok_def)
    obtain cs where cs: "node_ok (st \<lparr> pair_ciphers := cs \<rparr>)" "cache_ok (st \<lparr> pair_ciphers := cs \<rparr>)"
      "send_command env args st =
      (case message_cipher env st ?dst message of
         Inl e \<Rightarrow> Inl e
       | Inr enc \<Rightarrow>
           if enc = [] then Inr (''Error: Encryption failed.'' @ newline, st \<lparr> pair_ciphers := cs \<rparr>)
           else dispatch_message env (reachable env target ?dst st) target ?dst message enc (st \<lparr> pair_ciphers := cs \<rparr>))"
      using send_command_start [OF assms args ne refl] by blast
    consider "length message \<le> 1007" | "1008 \<le> length message \<and> length message \<le> 1024" | "1024 < length message"
      by linarith
    then show ?thesis
    proof cases
      case 1
      show ?thesis
        using send_reachable [OF assms args ne 1 refl] send_unreachable [OF assms args ne 1 refl _ es]
        unfolding same_node_def by (cases "reachable env target ?dst st") blast+
    next
      case 2
      then have "send_command env args st = Inr (''Error: Encryption failed.'' @ newline, st \<lparr> pair_ciphers := cs \<rparr>)"
        using cs(3) by (simp add: message_cipher_error(1) [OF env])
      moreover have "ready env (st \<lparr> pair_ciphers := cs \<rparr>)"
        using assms cs(1,2) by (simp add: ready_def)
      ultimately show ?thesis by (simp add: same_node_def)
    next
      case 3
      then show ?thesis
        using cs(3) send_arguments_length [OF args] by (simp add: message_cipher_error(2) [OF env])
    qed
  qed
qed

lemma with_lock_print: "\<not> net_mutex st \<Longrightarrow> with_lock (\<lambda>st. (f st, st)) st = Inr (f (st \<lparr> net_mutex := True \<rparr>), st)"
  by (simp add: with_lock_free unlock_net_def)

lemma run_command_keeps:
  assumes "ready env st"
  shows "(\<exists>go_on out_text st'. run_command env line st = Inr (go_on, out_text, st') \<and> ready env st' \<and> same_node st st') \<or>
    run_command env line st = Inl Out_of_bounds \<and> 1024 < length line"
proof -
  define command where "command = fst (case scan_word line of None \<Rightarrow> ([], []) | Some cr \<Rightarrow> cr)"
  define rest where "rest = snd (case scan_word line of None \<Rightarrow> ([], []) | Some cr \<Rightarrow> cr)"
  have split: "(case scan_word line of None \<Rightarrow> ([], []) | Some cr \<Rightarrow> cr) = (command, rest)"
    by (simp add: command_def rest_def)
  have "\<not> net_mutex st"
    using assms by (simp add: ready_def)
  note print = with_lock_print [OF this]
  have run: "run_command env line st =
     (if command = ''quit'' \<or> command = ''exit'' then Inr (False, [], st)
      else if command = ''list'' then Inr (True, list_text (st \<lparr> net_mutex := True \<rparr>), st)
      else if command = ''table'' then Inr (True, print_table (my_table st), st)
      else if command = ''status'' then Inr (True, status_text st, st)
      else if command = ''receive'' \<or> command = ''recv'' then Inr (True, receive_text st, st)
      else if command = ''queue'' then Inr (True, print_status (queue st), st)
      else if command = ''pending'' then Inr (True, pending_text env (st \<lparr> net_mutex := True \<rparr>), st)
      else if command = ''send'' then map_sum id (Pair True) (send_command env rest st)
      else if command \<noteq> [] then Inr (True, unknown_text, st)
      else Inr (True, [], st))"
    unfolding run_command_def split by (simp only: prod.case Let_def print map_sum.simps)
  have "length rest \<le> length line"
    by (auto simp: rest_def split: option.splits dest: scan_word_length)
  then have send: "(\<exists>out_text st'. send_command env rest st = Inr (out_text, st') \<and> ready env st' \<and> same_node st st') \<or>
      send_command env rest st = Inl Out_of_bounds \<and> 1024 < length line"
    using send_command_keeps [OF assms, of rest] by auto
  define good where "good r \<longleftrightarrow> (\<exists>go_on out_text st'. r = Inr (go_on, out_text, st') \<and> ready env st' \<and> same_node st st') \<or>
    r = Inl Out_of_bounds \<and> 1024 < length line" for r :: "fault + (bool \<times> string \<times> node)"
  have "good (Inr (b, t, st))" for b t
    using assms by (simp add: good_def same_node_def)
  moreover have "good (map_sum id (Pair True) (send_command env rest st))"
    using send by (auto simp: good_def)
  ultimately have "good (run_command env line st)"
    unfolding run by (simp only: split: if_split) simp
  then show ?thesis
    by (simp add: good_def)
qed

lemma ready_env: "ready env st \<Longrightarrow> env_ok env' \<Longrightarrow> ready env' st"
  by (simp add: ready_def)

lemma same_node_trans: "same_node a b \<Longrightarrow> same_node b c \<Longrightarrow> same_node a c"
  by (simp add: same_node_def)

lemma command_loop_keeps:
  assumes "ready env0 st" and "\<forall>(env, line) \<in> set ls. env_ok env"
  shows "(\<exists>out_text st'. command_loop ls st = Inr (out_text, st') \<and> ready env0 st' \<and> same_node st st') \<or>
    command_loop ls st = Inl Out_of_bounds \<and> (\<exists>(env, line) \<in> set ls. 1024 < length line)"
  using assms
proof (induction ls st rule: command_loop.induct)
  case (1 st)
  then show ?case by (simp add: same_node_def)
next
  case (2 env line ls st)
  have env: "env_ok env" "env_ok env0"
    using "2.prems" by (simp_all add: ready_def)
  from run_command_keeps [OF ready_env [OF "2.prems"(1) env(1)], of line] show ?case
  proof (elim disjE exE conjE)
    fix go_on out_text st1
    assume r: "run_command env line st = Inr (go_on, out_text, st1)" "ready env st1" "same_node st st1"
    have st1: "ready env0 st1"
      using r(2) env(2) by (rule ready_env)
    show ?thesis
    proof (cases go_on)
      case True
      have "(\<exists>out_text st'. command_loop ls st1 = Inr (out_text, st') \<and> ready env0 st' \<and> same_node st1 st') \<or>
          command_loop ls st1 = Inl Out_of_bounds \<and> (\<exists>(env, line) \<in> set ls. 1024 < length line)"
        using "2.IH" [OF r(1) refl refl True st1] "2.prems"(2) by simp
      then show ?thesis
        using r(1) True same_node_trans [OF r(3)] by auto
    next
      case False
      then show ?thesis
        using r(1,3) st1 by simp
    qed
  qed simp
qed

section \<open>Properties\<close>

text \<open>
  C15: Sending to a destination the node can reach: a message of at most 1007 characters is
  encrypted for the pair, cut into packets with consecutive sequence numbers, and every
  packet is handed once to \<open>sendto\<close>, whose outcome is ignored, addressed at the link layer to the destination itself, also when
  the destination was found through a route over another node; the message is entered as
  pending under the acknowledgement counter, and the queue file is not touched.
\<close>
theorem send_to_reachable:
  assumes "ready env st" and "send_arguments args = (target, message)" and "target \<noteq> []" and "message \<noteq> []"
    and "length message \<le> 1007" and "dst = string_to_mac target" and "reachable env target dst st"
  shows "\<exists>txt st' enc. send_command env args st = Inr (txt, st') \<and> node_ok st' \<and> cache_ok st' \<and>
    message_cipher env st dst message = Inr enc \<and>
    sent_frames st' = sent_frames st @ map (\<lambda>p. \<lparr> out_index = if_index (net st), out_addr = dst,
      out_bytes = packet_bytes p, accepted = (0 \<le> sendto_result env p) \<rparr>) (message_packets st dst enc) \<and>
    seq_num st' = seq_num st + of_nat (length (message_packets st dst enc)) \<and>
    pending_acks st' = m_put (next_ack_seq st) \<lparr> ack_dest = dst, retries = 0, sent_time = steady env,
      original_msg = message, ack_seq_num = next_ack_seq st \<rparr> (pending_acks st) \<and>
    next_ack_seq st' = next_ack_seq st + 1 \<and> queue st' = queue st"
  using send_reachable [OF assms] by (elim exE conjE) (intro exI conjI)

theorem send_to_reachable_witness:
  "\<exists>txt st' enc. send_command some_env one_line friend = Inr (txt, st') \<and>
    sent_frames st' = map (\<lambda>p. \<lparr> out_index = if_index (net friend), out_addr = replicate 6 1, out_bytes = packet_bytes p, accepted = True \<rparr>)
      (message_packets friend (replicate 6 1) enc) \<and>
    m_find (pending_acks st') 1 \<noteq> None"
proof -
  from send_to_reachable [OF ready_friend one_line one_target(3) hi_fits refl reachable_friend] obtain out_text st' enc where
    "send_command some_env one_line friend = Inr (out_text, st')"
    "sent_frames st' = sent_frames friend @ map (\<lambda>p. \<lparr> out_index = if_index (net friend), out_addr = string_to_mac one_target,
      out_bytes = packet_bytes p, accepted = (0 \<le> sendto_result some_env p) \<rparr>) (message_packets friend (string_to_mac one_target) enc)"
    "pending_acks st' = m_put (next_ack_seq friend) \<lparr> ack_dest = string_to_mac one_target, retries = 0, sent_time = steady some_env,
      original_msg = ''hi'', ack_seq_num = next_ack_seq friend \<rparr> (pending_acks friend)"
    by (elim exE conjE)
  then show ?thesis
    by (intro exI [of _ out_text] exI [of _ st'] exI [of _ enc]) (simp add: one_target(1) friend_fields some_env_def)
qed

text \<open>
  C16: Sending to a destination the node cannot reach sends nothing and waits for no
  acknowledgement: the payload of every packet of the encrypted message is appended to the
  queue file, in order, under the destination's address.
\<close>
theorem send_to_unreachable:
  assumes "ready env st" and "send_arguments args = (target, message)" and "target \<noteq> []" and "message \<noteq> []"
    and "length message \<le> 1007" and "dst = string_to_mac target" and "\<not> reachable env target dst st"
    and "stores (queue st) es"
  shows "\<exists>txt st' enc. send_command env args st = Inr (txt, st') \<and> node_ok st' \<and> cache_ok st' \<and>
    message_cipher env st dst message = Inr enc \<and>
    stores (queue st') (es @ map (\<lambda>p. queued dst (payload_bytes p) (time_now env)) (message_packets st dst enc)) \<and>
    sent_frames st' = sent_frames st \<and> pending_acks st' = pending_acks st \<and> next_ack_seq st' = next_ack_seq st"
  using send_unreachable [OF assms] by (elim exE conjE) (intro exI conjI)

theorem send_to_unreachable_witness:
  "\<exists>txt st' enc. send_command some_env one_line (started_node (replicate 6 7)) = Inr (txt, st') \<and>
    stores (queue st') (map (\<lambda>p. queued (replicate 6 1) (payload_bytes p) 100)
      (message_packets (started_node (replicate 6 7)) (replicate 6 1) enc))"
proof -
  have ready: "ready some_env (started_node (replicate 6 7))"
    by (rule ready_started) simp
  have q: "stores (queue (started_node (replicate 6 7))) []"
    by (simp add: started_node_def stores_def)
  have t: "time_now some_env = 100"
    by (simp add: some_env_def)
  from send_to_unreachable [OF ready one_line one_target(3) hi_fits refl unreachable_started q] show ?thesis
    unfolding one_target(1) t append_Nil by (elim exE conjE) (intro exI conjI)
qed

text \<open>
  C17: What \<open>send\<close> refuses: without an address or a message it prints its usage and changes
  nothing; a message of 1008 to 1024 characters is reported as an encryption error, and
  only the cipher cache may have grown; a longer one overruns the padding buffer.
\<close>
theorem send_refuses:
  assumes "ready env st" and "send_arguments args = (target, message)"
  shows "(target = [] \<or> message = [] \<longrightarrow> send_command env args st = Inr (''Usage: send <mac_address> <message>'' @ newline, st)) \<and>
    (target \<noteq> [] \<and> 1008 \<le> length message \<and> length message \<le> 1024 \<longrightarrow>
      (\<exists>cs. send_command env args st = Inr (''Error: Encryption failed.'' @ newline, st \<lparr> pair_ciphers := cs \<rparr>))) \<and>
    (target \<noteq> [] \<and> 1024 < length message \<longrightarrow> send_command env args st = Inl Out_of_bounds)"
proof (intro conjI impI)
  assume "target = [] \<or> message = []"
  then show "send_command env args st = Inr (''Usage: send <mac_address> <message>'' @ newline, st)"
    using assms(2) by (simp add: send_command_def)
next
  have env: "env_ok env"
    using assms(1) by (simp add: ready_def)
  {
    assume a: "target \<noteq> [] \<and> 1008 \<le> length message \<and> length message \<le> 1024"
    then have ne: "target \<noteq> []" "message \<noteq> []" by auto
    from send_command_start [OF assms ne refl]
    show "\<exists>cs. send_command env args st = Inr (''Error: Encryption failed.'' @ newline, st \<lparr> pair_ciphers := cs \<rparr>)"
      using a by (auto simp: message_cipher_error(1) [OF env])
  next
    assume a: "target \<noteq> [] \<and> 1024 < length message"
    then have ne: "target \<noteq> []" "message \<noteq> []" by auto
    from send_command_start [OF assms ne refl]
    show "send_command env args st = Inl Out_of_bounds"
      using a by (auto simp: message_cipher_error(2) [OF env])
  }
qed

theorem send_refuses_witness:
  "send_command some_env '' 01:01:01:01:01:01 '' friend = Inr (''Usage: send <mac_address> <message>'' @ newline, friend)"
proof -
  have "send_arguments '' 01:01:01:01:01:01 '' = (one_target, [])"
    by (simp add: one_target_def send_arguments_def scan_word_def skip_ws_def is_space_def Let_def)
  then show ?thesis
    using send_refuses [OF ready_friend] by blast
qed

text \<open>
  C14: No session breaks the node's state: whatever lines are typed, each command returns
  with the state consistent, the cipher cache correct, the mutex free and the node's address
  and keys unchanged, and the only fault is the overrun of a \<open>send\<close> in a line of more than
  1024 characters.
\<close>
theorem commands_keep_state:
  assumes "ready env0 st" and "\<forall>(env, line) \<in> set ls. env_ok env"
  shows "(\<exists>txt st'. command_loop ls st = Inr (txt, st') \<and> ready env0 st' \<and>
      net st' = net st \<and> my_mac st' = my_mac st \<and> base_key st' = base_key st) \<or>
    command_loop ls st = Inl Out_of_bounds \<and> (\<exists>(env, line) \<in> set ls. 1024 < length line)"
  using command_loop_keeps [OF assms] by (simp add: same_node_def)

theorem commands_keep_state_witness:
  "\<exists>txt st'. command_loop [(some_env, ''send 01:01:01:01:01:01 hi''), (some_env, ''pending''), (some_env, ''quit'')] friend =
    Inr (txt, st') \<and> ready some_env st'"
proof -
  have "\<forall>(env, line) \<in> set [(some_env, ''send 01:01:01:01:01:01 hi''), (some_env, ''pending''), (some_env, ''quit'')]. env_ok env"
    by (simp add: some_env_ok)
  from commands_keep_state [OF ready_friend this] show ?thesis
    by auto
qed

end
