(* ===== verification/Startup.thy ===== *)
theory Startup
  imports Sending
begin

text \<open>
  The start of \<open>main\<close> in \<open>src/araba_node.cpp\<close>, from the check of the user to the state the two
  threads begin with.
\<close>

section \<open>What the machine must provide\<close>

text \<open>
  The kernel's contract for descriptors, hardware addresses of six bytes, and a queue file
  that is either absent from a writable directory or one the node wrote.
\<close>

definition queue_usable :: "disk \<Rightarrow> bool" where
  "queue_usable d \<longleftrightarrow> (readable d \<and> writable d \<and> content d = None) \<or> (\<exists>es. stores d es)"

definition startup_ok :: "startup \<Rightarrow> bool" where
  "startup_ok s \<longleftrightarrow> - 1 \<notin> start_fds s \<and> kernel_ok (net_kernel s) (start_fds s) \<and>
     (\<forall>n m. hw_address (net_kernel s) n = Some m \<longrightarrow> length m = 6) \<and>
     (\<forall>f. queue_usable (queue_files s f)) \<and> length (junk_magic s) = 4 \<and> wf_packet (junk_packet s)"

text \<open>The interface \<open>main\<close> opens: the configured one or the first common one that exists.\<close>

definition chosen_interface :: "startup \<Rightarrow> node_config \<Rightarrow> string option" where
  "chosen_interface s c =
     (if interface c \<noteq> [] then Some (interface c)
      else (case filter (\<lambda>iface. name_index (net_kernel s) iface \<noteq> 0) common_interfaces of
              iface # _ \<Rightarrow> Some iface | [] \<Rightarrow> None))"

lemma rue_queue_usable:
  assumes "queue_usable d" and "length junk = 4"
  shows "\<exists>es. stores (rue_queue junk d) es"
proof (cases "content d = None \<and> readable d \<and> writable d")
  case True
  then show ?thesis
    using ensure_header_fresh by blast
next
  case False
  then obtain es where "stores d es"
    using assms(1) by (auto simp: queue_usable_def)
  then show ?thesis
    using ensure_header_keeps [OF _ assms(2)] by (auto simp: rue_queue_def)
qed

lemma open_chosen:
  "(if interface c \<noteq> [] then open_net k n0 (interface c) else open_auto k n0) =
    (case (if interface c \<noteq> [] then Some (interface c)
       else (case filter (\<lambda>iface. name_index k iface \<noteq> 0) common_interfaces of
               iface # _ \<Rightarrow> Some iface | [] \<Rightarrow> None)) of
       Some n \<Rightarrow> open_net k n0 n | None \<Rightarrow> (False, n0))"
  by (auto simp: open_auto_def split: list.splits)

section \<open>The state the threads begin with\<close>

lemma start_spec:
  assumes "startup_ok s" and "euid s = 0" and "startup_config s = Inr c" and "env_ok env"
  shows "if c_string (passphrase c) = [] then main_start s = Inl Division_by_zero
    else case chosen_interface s c of
        None \<Rightarrow> main_start s = Inr (Exit 1)
      | Some n \<Rightarrow>
          if can_open (net_kernel s) n
          then \<exists>st. main_start s = Inr (Running st) \<and> ready env st \<and> loop_ok st \<and>
            derive_key (passphrase c) = Inr (base_key st) \<and> hw_address (net_kernel s) (take 15 n) = Some (my_mac st) \<and>
              net_ok (net st) \<and> others (net st) = start_fds s \<and> log_text st = log_files s (log_file c)
          else main_start s = Inr (Exit 1)"
proof (cases "c_string (passphrase c) = []")
  case True
  then show ?thesis
    using assms(2,3) by (simp add: main_start_def derive_key_def)
next
  case False
  then obtain key where key: "derive_key (passphrase c) = Inr key"
    by (auto simp: derive_key_def Let_def)
  let ?net = "new_interface (start_fds s)"
  define opened where "opened = (if interface c \<noteq> [] then open_net (net_kernel s) ?net (interface c) else open_auto (net_kernel s) ?net)"
  have start: "main_start s = (case opened of (ok, n) \<Rightarrow>
      if \<not> ok then Inr (Exit 1)
      else Inr (Running
        \<lparr> net = n, my_mac = snd (get_local_mac n (replicate 6 0)), my_table = [], known_neighbors = [],
          seq_num = 0, queue = rue_queue (junk_magic s) (queue_files s (queue_file c)),
          net_mutex = False, base_key = key, pair_ciphers = [], frag_mgr = new_fragment_manager,
          g_config = c, pending_acks = [], next_ack_seq = 1, cleanup_counter = 0,
          received_packet = junk_packet s, log_text = log_files s (log_file c), sent_frames = [] \<rparr>))"
    unfolding main_start_def opened_def using assms(2,3) key by simp
  have opened: "opened = (case chosen_interface s c of Some n \<Rightarrow> open_net (net_kernel s) ?net n | None \<Rightarrow> (False, ?net))"
    unfolding opened_def open_chosen chosen_interface_def ..
  show ?thesis
  proof (cases "chosen_interface s c")
    case None
    then show ?thesis
      using False by (simp add: start opened)
  next
    case (Some n)
    obtain ok n' where o: "open_net (net_kernel s) ?net n = (ok, n')"
      by (cases "open_net (net_kernel s) ?net n")
    have net: "net_ok ?net" "others ?net = start_fds s"
      by (simp_all add: new_interface_def net_defs)
    then have spec: "net_ok n' \<and> others n' = others ?net \<and> (ok \<longleftrightarrow> can_open (net_kernel s) n) \<and>
      (if ok then sock_fd n' = packet_socket (net_kernel s) \<and> if_index n' = name_index (net_kernel s) n \<and>
         hw_address (net_kernel s) (take 15 n) = Some (local_mac n') else \<not> is_open n')"
      using open_net_spec [OF net(1) _ o] assms(1) by (simp add: startup_ok_def)
    show ?thesis
    proof (cases "can_open (net_kernel s) n")
      case False
      then show ?thesis
        using spec \<open>c_string (passphrase c) \<noteq> []\<close> by (simp add: start opened Some o)
    next
      case True
      let ?st = "\<lparr> net = n', my_mac = snd (get_local_mac n' (replicate 6 0)), my_table = [], known_neighbors = [],
          seq_num = 0, queue = rue_queue (junk_magic s) (queue_files s (queue_file c)),
          net_mutex = False, base_key = key, pair_ciphers = [], frag_mgr = new_fragment_manager,
          g_config = c, pending_acks = [], next_ack_seq = 1, cleanup_counter = 0,
          received_packet = junk_packet s, log_text = log_files s (log_file c), sent_frames = [] \<rparr>"
      have n': "sock_fd n' = packet_socket (net_kernel s)" "if_index n' = name_index (net_kernel s) n"
          "hw_address (net_kernel s) (take 15 n) = Some (local_mac n')"
        using spec True by simp_all
      have fd: "0 \<le> sock_fd n'" "if_index n' \<noteq> 0"
        using True n' by (simp_all add: can_open_def)
      then have mac: "snd (get_local_mac n' (replicate 6 0)) = local_mac n'"
        by (simp add: get_local_mac_def)
      have "length (local_mac n') = 6"
        using n'(3) assms(1) by (auto simp: startup_ok_def)
      moreover have "\<exists>es. stores (rue_queue (junk_magic s) (queue_files s (queue_file c))) es"
        using assms(1) by (intro rue_queue_usable) (simp_all add: startup_ok_def)
      moreover have "length key = AES_KEY_SIZE"
        using length_derive_key [OF key] by (simp add: AES_KEY_SIZE_def)
      ultimately have ok: "node_ok ?st"
        using assms(1) by (simp add: node_ok_def mac mac_texts_def fm_ok_new startup_ok_def)
      then have "ready env ?st" "loop_ok ?st"
        using fd assms(4) by (simp_all add: ready_def cache_ok_def loop_ok_def)
      moreover have "main_start s = Inr (Running ?st)"
        using spec True by (simp add: start opened Some o)
      ultimately show ?thesis
        using False True Some key n'(3) mac spec net(2) by (auto intro!: exI [of _ ?st])
    qed
  qed
qed

text \<open>
  A run of \<open>main\<close> in which the network thread changes nothing but is joined: the socket is
  closed again, and no descriptor is left behind.
\<close>

lemma main_leaves_no_descriptor:
  assumes "startup_ok s" and "euid s = 0" and "startup_config s = Inr c" and "env_ok env"
    and "main_start s = Inr (Running st)" and "\<forall>(env, line) \<in> set ls. env_ok env \<and> length line \<le> 1024"
  shows "\<exists>t st'. main_session ls st = Inr (t, st') \<and> open_fds (net st') = start_fds s \<and> \<not> is_open (net st')"
proof -
  have st: "ready env st" "net_ok (net st)" "others (net st) = start_fds s"
    using start_spec [OF assms(1-4)] assms(5) by (auto split: if_splits option.splits)
  have env: "\<forall>(env, line) \<in> set ls. env_ok env" and short: "\<not> (\<exists>(env, line) \<in> set ls. 1024 < length line)"
    using assms(6) by auto
  obtain t st' where r: "command_loop ls st = Inr (t, st')" "net st' = net st"
    using command_loop_keeps [OF st(1) env] short unfolding same_node_def by blast
  have "0 \<le> sock_fd (net st)"
    using st(1) by (simp add: ready_def)
  then have "open_fds (close_net (net st)) = start_fds s" "\<not> is_open (close_net (net st))"
    using st(2,3) by (auto simp: close_net_def net_defs)
  then show ?thesis
    using r by (simp add: main_session_def Let_def)
qed

text \<open>A line that gives one of the numbers in digits \<open>std::stoul\<close> does not accept.\<close>

definition number_keys :: "string list" where
  "number_keys = [''fragment_timeout_sec'', ''discovery_ttl'', ''discovery_interval_ms'']"

lemma bad_number:
  assumes "config_files s (config_path s) = Some body" and "lines_of body = before @ (key @ ''='' @ val) # after"
    and "config_lines before default_config = Inr c1" and "key \<in> set number_keys" and "trimmed val"
    and "stoul val = Inl e"
  shows "startup_config s = Inl e"
proof -
  have "key \<in> set option_keys"
    using assms(4) by (auto simp: number_keys_def option_keys_def)
  then have "config_line (key @ ''='' @ val) c1 = set_option key val c1"
    using assms(5) by (rule config_line_key)
  also have "\<dots> = Inl e"
    using assms(4,6) by (auto simp: number_keys_def)
  finally show ?thesis
    using assms(1-3) by (simp add: startup_config_def load_config_def config_lines_append)
qed

section \<open>Property\<close>

text \<open>
  C20: How the node starts.  Without root it exits with status 1 before it reads anything.
  A configuration line that gives a number \<open>std::stoul\<close> does not accept ends the start in
  the exception, and so does every other fault of the configuration; an empty passphrase
  divides by zero.  Otherwise the node runs exactly when there is an interface and the
  kernel grants every call on it, and then its state is consistent and ready for both
  threads, with the base key of the passphrase, the hardware address of the interface and
  the log of earlier runs; if not, it exits with status 1.
\<close>
theorem node_starts_ready:
  assumes "startup_ok s" and "env_ok env"
  shows "(if euid s \<noteq> 0 then main_start s = Inr (Exit 1)
    else case startup_config s of
        Inl e \<Rightarrow> main_start s = Inl e
      | Inr c \<Rightarrow>
          if c_string (passphrase c) = [] then main_start s = Inl Division_by_zero
          else case chosen_interface s c of
              None \<Rightarrow> main_start s = Inr (Exit 1)
            | Some n \<Rightarrow>
                if can_open (net_kernel s) n
                then \<exists>st. main_start s = Inr (Running st) \<and> ready env st \<and> loop_ok st \<and>
                  derive_key (passphrase c) = Inr (base_key st) \<and> hw_address (net_kernel s) (take 15 n) = Some (my_mac st) \<and>
                  log_text st = log_files s (log_file c)
                else main_start s = Inr (Exit 1)) \<and>
    (\<forall>body before key val after c1 e. euid s = 0 \<and> config_files s (config_path s) = Some body \<and>
       lines_of body = before @ (key @ ''='' @ val) # after \<and> config_lines before default_config = Inr c1 \<and>
       key \<in> set number_keys \<and> trimmed val \<and> stoul val = Inl e \<longrightarrow> main_start s = Inl e)"
proof (intro conjI allI impI)
  show "if euid s \<noteq> 0 then main_start s = Inr (Exit 1)
    else case startup_config s of
        Inl e \<Rightarrow> main_start s = Inl e
      | Inr c \<Rightarrow>
          if c_string (passphrase c) = [] then main_start s = Inl Division_by_zero
          else case chosen_interface s c of
              None \<Rightarrow> main_start s = Inr (Exit 1)
            | Some n \<Rightarrow>
                if can_open (net_kernel s) n
                then \<exists>st. main_start s = Inr (Running st) \<and> ready env st \<and> loop_ok st \<and>
                  derive_key (passphrase c) = Inr (base_key st) \<and> hw_address (net_kernel s) (take 15 n) = Some (my_mac st) \<and>
                  log_text st = log_files s (log_file c)
                else main_start s = Inr (Exit 1)"
  proof (cases "euid s = 0 \<and> (\<exists>c. startup_config s = Inr c)")
    case True
    then obtain c where c: "euid s = 0" "startup_config s = Inr c" by blast
    show ?thesis
      using start_spec [OF assms(1) c assms(2)] c by (simp split: option.splits if_splits) blast
  next
    case False
    then show ?thesis
      by (cases "startup_config s") (simp_all add: main_start_def)
  qed
next
  fix body before key val after c1 e
  assume a: "euid s = 0 \<and> config_files s (config_path s) = Some body \<and>
    lines_of body = before @ (key @ ''='' @ val) # after \<and> config_lines before default_config = Inr c1 \<and>
    key \<in> set number_keys \<and> trimmed val \<and> stoul val = Inl e"
  then have "startup_config s = Inl e"
    using bad_number by blast
  then show "main_start s = Inl e"
    using a by (simp add: main_start_def)
qed

definition some_startup :: startup where
  "some_startup =
     \<lparr> euid = 0, argument = None, config_files = (\<lambda>f. None), config_writable = True,
       net_kernel = \<lparr> packet_socket = 3, query_socket = 4, name_index = (\<lambda>n. if n = ''eth0'' then 2 else 0),
                      hw_address = (\<lambda>n. Some (replicate 6 7)) \<rparr>,
       start_fds = {0, 1, 2}, queue_files = (\<lambda>f. \<lparr> content = None, readable = True, writable = True \<rparr>),
       log_files = (\<lambda>f. []),
       junk_magic = [0, 0, 0, 0], junk_packet = init DATA (replicate 6 0) (replicate 6 0) 0 \<rparr>"

theorem node_starts_ready_witness:
  "(\<exists>st. main_start some_startup = Inr (Running st) \<and> ready some_env st \<and> my_mac st = replicate 6 7) \<and>
    main_start (some_startup \<lparr> euid := 1000 \<rparr>) = Inr (Exit 1) \<and>
    main_start (some_startup \<lparr> config_files := (\<lambda>f. Some ''discovery_ttl=x'') \<rparr>) = Inl Invalid_argument"
proof (intro conjI)
  have ok: "startup_ok (some_startup \<lparr> euid := u \<rparr>)" "startup_ok (some_startup \<lparr> config_files := f \<rparr>)" "startup_ok some_startup" for u f
    by (simp_all add: startup_ok_def some_startup_def kernel_ok_def queue_usable_def)
  have root: "euid some_startup = 0"
    by (simp add: some_startup_def)
  have config: "startup_config some_startup = Inr default_config"
    by (simp add: startup_config_def some_startup_def load_config_def) (use load_default in \<open>simp add: load_config_def\<close>)
  have "chosen_interface some_startup default_config = Some ''eth0''"
    by (simp add: chosen_interface_def some_startup_def default_config_def common_interfaces_def)
  moreover have "can_open (net_kernel some_startup) ''eth0''"
    by (simp add: can_open_def some_startup_def)
  moreover have "c_string (passphrase default_config) \<noteq> []"
    by (simp add: c_string_def default_config_def)
  moreover have "hw_address (net_kernel some_startup) n = Some (replicate 6 7)" for n
    by (simp add: some_startup_def)
  ultimately show "\<exists>st. main_start some_startup = Inr (Running st) \<and> ready some_env st \<and> my_mac st = replicate 6 7"
    using node_starts_ready [OF ok(3) some_env_ok] root config by auto
  show "main_start (some_startup \<lparr> euid := 1000 \<rparr>) = Inr (Exit 1)"
    using node_starts_ready [OF ok(1) some_env_ok] by simp
  let ?s = "some_startup \<lparr> config_files := (\<lambda>f. Some ''discovery_ttl=x'') \<rparr>"
  have "euid ?s = 0 \<and> config_files ?s (config_path ?s) = Some ''discovery_ttl=x'' \<and>
      lines_of ''discovery_ttl=x'' = [] @ (''discovery_ttl'' @ ''='' @ ''x'') # [] \<and>
      config_lines [] default_config = Inr default_config \<and> ''discovery_ttl'' \<in> set number_keys \<and> trimmed ''x'' \<and>
      stoul ''x'' = Inl Invalid_argument"
    using root by (simp add: number_keys_def trimmed_def is_space_def stoul_def skip_ws_def scan_sign_def is_dec_def)
  then show "main_start ?s = Inl Invalid_argument"
    using node_starts_ready [OF ok(2) some_env_ok] by blast
qed

end
