(* ===== verification/Delivery.thy ===== *)
theory Delivery
  imports Sending
begin

text \<open>
  From one node to another: what the packets of a message hold for a receiver with the same
  key, and the packets that leave the queue.  The properties themselves are in the root
  theory.
\<close>

section \<open>Packets that carry others\<close>

text \<open>
  \<open>r\<close> carries what \<open>p\<close> was made for: sender, receiver and declared payload; sequence number
  and the bytes behind the payload may differ.
\<close>

definition carries :: "packet \<Rightarrow> packet \<Rightarrow> bool" where
  "carries p r \<longleftrightarrow> wf_packet r \<and> payload_bytes r = payload_bytes p \<and>
     payload_len (header r) = payload_len (header p) \<and> unat (payload_len (header r)) \<le> MAX_PAYLOAD_SIZE \<and>
     ptype (header r) = ptype (header p) \<and> source (header r) = source (header p) \<and> dest (header r) = dest (header p)"

lemma carries_framed:
  assumes "wf_packet p" and "wf_packet q" and "unat (payload_len (header p)) \<le> MAX_PAYLOAD_SIZE"
    and "length eth = 14" and "0 \<le> sock_fd n0"
  shows "\<exists>r. receive_packet n0 q (Some (eth @ packet_bytes p)) = (True, r) \<and> carries p r \<and> header r = header p"
proof -
  let ?r = "p \<lparr> payload := overwrite (payload q) 0 (payload_bytes p) \<rparr>"
  have "length (payload p) = 512" "length (payload q) = 512"
    using assms(1,2) by (simp_all add: wf_packet_def MAX_PAYLOAD_SIZE_def)
  then have "length (payload_bytes p) = unat (payload_len (header p))" "length (payload_bytes p) \<le> 512"
    using assms(3) by (simp_all add: payload_bytes_def MAX_PAYLOAD_SIZE_def)
  then have "carries p ?r"
    using assms(1,3) \<open>length (payload q) = 512\<close>
    by (simp add: carries_def wf_packet_def MAX_PAYLOAD_SIZE_def payload_bytes_def take_overwrite_0)
  then show ?thesis
    using receive_framed [OF assms] by simp
qed

lemma carries_length: "carries p r \<Longrightarrow> unat (payload_len (header r)) \<le> length (payload r)"
  by (simp add: carries_def wf_packet_def) (elim conjE, simp)

lemma carries_own_fragment: "carries p r \<Longrightarrow> own_fragment data mid k p \<Longrightarrow> own_fragment data mid k r"
  by (frule carries_length) (auto simp add: own_fragment_def carries_def)

section \<open>Reading a message\<close>

text \<open>The receiver's key schedule for the sender decrypts what the sender encrypted.\<close>

lemma message_decrypts:
  assumes "ready env st" and "length message \<le> 1007" and "length dst = 6" and "length message \<le> max_out"
    and "message_cipher env st dst message = Inr enc"
  shows "decrypt_payload (pair_schedule dst (my_mac st) (base_key st)) stack (enc @ r) (length enc) max_out =
    Inr (string_bytes message)"
proof -
  have st: "length (my_mac st) = 6" "length (base_key st) = AES_KEY_SIZE" "length (encrypt_memory env) = LOCAL_BUFFER"
    using assms(1) by (simp_all add: ready_def node_ok_def env_ok_def)
  have "length (string_bytes message) \<le> 1007" "length (string_bytes message) \<le> max_out"
    using assms(2,4) by simp_all
  from payload_codec [OF this(1) st(3) this(2), of "pair_schedule (my_mac st) dst (base_key st)" "of_int (steady env)"]
  show ?thesis
    using assms(5) unfolding message_cipher_def pair_schedule_sym [OF assms(3) st(1,2)] by auto
qed

section \<open>The packets of a message\<close>

lemma fragment_message_addressed:
  assumes "length data \<le> 1024"
    and "fragment_message fm data ty src dst seq = (ps, fm', seq')" and "p \<in> set ps"
  shows "ptype (header p) = ty \<and> source (header p) = src \<and> dest (header p) = dst"
proof (cases "length data \<le> 480")
  case True
  then show ?thesis
    using assms by (auto simp: fragment_message_def frag_sizes)
next
  case False
  then have "ps = map (\<lambda>k. set_payload (init ty src dst (seq + of_nat k))
        (fragment_bytes data (next_msg_id fm) (of_nat (fragment_count data)) k)) [0..<fragment_count data]"
    using fragment_message_split [of data fm ty src dst seq] assms(1,2) by simp
  then show ?thesis
    using assms(3) by auto
qed

text \<open>The call of \<open>sendto\<close> that hands a packet for \<open>dst\<close> to the socket of the node.\<close>

definition frame_to :: "env \<Rightarrow> node \<Rightarrow> mac \<Rightarrow> packet \<Rightarrow> frame" where
  "frame_to env st dst p =
     \<lparr> out_index = if_index (net st), out_addr = dst, out_bytes = packet_bytes p, accepted = (0 \<le> sendto_result env p) \<rparr>"

lemma message_packets_spec:
  assumes "ready env st" and "length dst = 6" and "length enc \<le> 1024" and "p \<in> set (message_packets st dst enc)"
  shows "sendable p \<and> wf_packet p \<and> ptype (header p) = DATA \<and> source (header p) = my_mac st \<and> dest (header p) = dst"
proof -
  obtain pkts fm seq where f: "fragment_message (frag_mgr st) enc DATA (my_mac st) dst (seq_num st) = (pkts, fm, seq)"
    by (metis prod_cases3)
  have "length (my_mac st) = 6"
    using assms(1) by (simp add: ready_def node_ok_def)
  moreover have "p \<in> set pkts"
    using assms(4) by (simp add: message_packets_def f)
  ultimately show ?thesis
    using fragment_message_sendable [OF assms(3) _ assms(2) f] fragment_message_addressed [OF assms(3) f] by simp
qed

lemma message_packets_nonempty:
  assumes "0 < length enc" and "length enc \<le> 1024"
  shows "0 < length (message_packets st dst enc)"
proof (cases "length enc \<le> 480")
  case True
  then show ?thesis
    by (simp add: message_packets_def fragment_message_def frag_sizes)
next
  case False
  have "length enc \<le> 122400"
    using assms(2) by simp
  moreover from this have "2 \<le> fragment_count enc"
    using False by (intro fragment_count_bounds(1)) simp_all
  ultimately show ?thesis
    using False by (simp add: message_packets_def fragment_message_split)
qed

section \<open>Delivery from the queue\<close>

lemma auto_deliver_sends:
  assumes "stores (queue st) es" and "length src = 6" and "pend = filter (\<lambda>e. dest_mac e = src) es"
  shows "\<exists>lt d. auto_deliver env src st = Inr (st \<lparr> log_text := lt, seq_num := seq_num st + of_nat (length pend), queue := d,
      sent_frames := sent_frames st @
        frames_to env (net st) (zip (delivery_packets (my_mac st) (seq_num st) pend) (map dest_mac pend)) \<rparr>) \<and>
    stores d (filter (\<lambda>e. dest_mac e \<noteq> src) es)"
proof -
  have pend: "get_pending (queue st) src = pend"
    using assms(1,3) by (simp add: get_pending_eq stores_get_all)
  have len: "\<forall>e \<in> set pend. unat (entry_len e) \<le> MAX_PAYLOAD_SIZE"
    using assms(1,3) by (auto simp: stores_def wf_entry_def)
  show ?thesis
  proof (cases "pend = []")
    case True
    then have "filter (\<lambda>e. dest_mac e \<noteq> src) es = es"
      using assms(3) by (simp add: filter_empty_conv filter_id_conv)
    then show ?thesis
      using True assms(1,2) pend by (intro exI [of _ "log_text st"] exI [of _ "queue st"]) (simp add: auto_deliver_def)
  next
    case False
    let ?msg = "''Auto-delivering '' @ show_dec (length pend) @ '' queued messages to '' @ mac_to_string src"
    have "stores (remove_entries (queue st) pend) (filter (\<lambda>e. dest_mac e \<noteq> src) es)"
      using rue.deliver_pending [OF assms(1), of src] pend by (simp add: remove_entries_eq)
    then show ?thesis
      using False assms(2) pend deliver_entries_eq [OF len, of env "log_event env ?msg st"]
      by (intro exI [of _ "log_text st @ log_line (local_tm env) ?msg"] exI [of _ "remove_entries (queue st) pend"])
        (simp add: auto_deliver_def Let_def log_event_def)
  qed
qed

lemma queued_packet:
  assumes "length data \<le> MAX_PAYLOAD_SIZE"
  shows "take (unat (entry_len (queued dst data t))) (entry_payload (queued dst data t)) = data"
    and "dest_mac (queued dst data t) = dst"
  using assms by (simp_all add: queued_def MAX_PAYLOAD_SIZE_def unat_of_nat_u16)

lemma delivery_carries:
  assumes "length my = 6" and "length dst = 6"
    and "\<forall>p \<in> set ps. sendable p \<and> ptype (header p) = DATA \<and> source (header p) = my \<and> dest (header p) = dst"
  shows "list_all2 carries ps (delivery_packets my seq (map (\<lambda>p. queued dst (payload_bytes p) t) ps))"
  using assms(3)
proof (induction ps arbitrary: seq)
  case Nil
  then show ?case by simp
next
  case (Cons p ps)
  let ?n = "payload_len (header p)" and ?q = "set_payload (init DATA my dst seq) (payload_bytes p)"
  have p: "length (payload p) = 512" "unat ?n \<le> 512"
    using Cons.prems by (simp_all add: sendable_def MAX_PAYLOAD_SIZE_def)
  then have len: "length (payload_bytes p) = unat ?n" "length (payload_bytes p) \<le> MAX_PAYLOAD_SIZE"
    by (simp_all add: payload_bytes_def MAX_PAYLOAD_SIZE_def)
  then have "payload_bytes ?q = payload_bytes p" "payload_len (header ?q) = ?n"
    by simp_all
  moreover have "wf_packet ?q"
    using assms(1,2) len(2) by (simp add: MAX_PAYLOAD_SIZE_def)
  ultimately have "carries p ?q"
    using Cons.prems p(2) by (simp add: carries_def MAX_PAYLOAD_SIZE_def)
  then show ?case
    using Cons by (simp add: queued_packet [OF len(2)])
qed

lemma zip_const: "zip xs (map (\<lambda>x. d) ys) = map (\<lambda>x. (x, d)) xs" if "length xs = length ys"
  using that by (induction xs ys rule: list_induct2) simp_all

lemma length_delivery_packets [simp]: "length (delivery_packets my seq es) = length es"
  by (induction es arbitrary: seq) simp_all

section \<open>The whole way of a message\<close>

lemma own_fragment_is_fragment:
  assumes "own_fragment data mid k p" and "480 < length data" and "length data \<le> 65535"
  shows "is_fragment p"
proof -
  have "length data \<le> 122400"
    using assms(3) by simp
  note b = fragment_count_bounds [OF assms(2) this]
  have "unat (of_nat (fragment_count data) :: u8) = fragment_count data"
    using b(2) by (intro unat_of_nat_u8) simp
  then have "1 < (of_nat (fragment_count data) :: u8)"
    using b(1) by (simp add: word_less_nat_alt)
  then show ?thesis
    using own_fragment_header [OF assms(1)] by (simp add: is_fragment_iff FRAG_HEADER_SIZE_def)
qed

lemma length_cipher:
  assumes "env_ok env" and "length message \<le> 1007" and "message_cipher env st dst message = Inr enc"
  shows "length enc = 16 + ((length message + 16) div 16) * 16" and "length enc \<le> 1024"
  using message_cipher_fits [OF assms(1,2), of st dst] assms(3) by auto

text \<open>A message in one packet.\<close>

lemma decode_short:
  assumes "ready env st" and "length dst = 6" and "length message \<le> 463"
    and "message_cipher env st dst message = Inr enc" and "list_all2 carries (message_packets st dst enc) rs"
    and "rk = pair_schedule dst (my_mac st) (base_key st)"
  shows "\<exists>r. rs = [r] \<and>
    decrypt_payload rk stack (payload r) (unat (payload_len (header r))) 1024 = Inr (string_bytes message)"
proof -
  have short: "length message \<le> 1007" "length message \<le> 1024" "env_ok env"
    using assms(1,3) by (simp_all add: ready_def)
  have len: "length enc \<le> 480" "length enc \<le> 512"
    using length_cipher(1) [OF short(3,1) assms(4)] assms(3) by simp_all
  let ?p = "set_payload (init DATA (my_mac st) dst (seq_num st)) enc"
  have "message_packets st dst enc = [?p]"
    using len by (simp add: message_packets_def fragment_message_def frag_sizes)
  then obtain r where r: "rs = [r]" "carries ?p r"
    using assms(5) by (auto simp: list_all2_Cons1)
  have "payload_bytes r = enc"
    using r(2) len by (simp add: carries_def MAX_PAYLOAD_SIZE_def)
  then have pay: "payload r = enc @ drop (length enc) (payload r)" "unat (payload_len (header r)) = length enc"
    using carries_length [OF r(2)] by (auto simp: payload_bytes_def)
  have "decrypt_payload rk stack (payload r) (length enc) 1024 = Inr (string_bytes message)"
    unfolding assms(6) by (subst pay(1)) (rule message_decrypts [OF assms(1) short(1) assms(2) short(2) assms(4)])
  then show ?thesis
    using r(1) pay(2) by simp
qed

text \<open>A message in several packets: each is a fragment of the ciphertext.\<close>

lemma message_fragments:
  assumes "ready env st" and "length dst = 6" and "463 < length message" and "length message \<le> 1007"
    and "message_cipher env st dst message = Inr enc" and "list_all2 carries (message_packets st dst enc) rs"
  shows "\<forall>k < fragment_count enc. own_fragment enc (next_msg_id (frag_mgr st)) k (rs ! k)"
    and "length rs = fragment_count enc" and "\<forall>r \<in> set rs. is_fragment r"
    and "480 < length enc" and "length enc \<le> 1024"
proof -
  have st: "env_ok env" "length (my_mac st) = 6"
    using assms(1) by (simp_all add: ready_def node_ok_def)
  note enc = length_cipher [OF st(1) assms(4,5)]
  show len: "480 < length enc" "length enc \<le> 1024"
    using enc assms(3) by simp_all
  obtain pkts fm seq where f: "fragment_message (frag_mgr st) enc DATA (my_mac st) dst (seq_num st) = (pkts, fm, seq)"
    by (metis prod_cases3)
  have pkts: "message_packets st dst enc = pkts"
    by (simp add: message_packets_def f)
  let ?mid = "next_msg_id (frag_mgr st)"
  have owns: "length pkts = fragment_count enc" "\<forall>k < fragment_count enc. own_fragment enc ?mid k (pkts ! k)"
    using fragment_message_owns [OF f len(1) _ st(2) assms(2)] len(2) by simp_all
  show n: "length rs = fragment_count enc"
    using assms(6) owns(1) by (simp add: pkts list_all2_conv_all_nth)
  have "carries (pkts ! k) (rs ! k)" if "k < fragment_count enc" for k
    using assms(6) that owns(1) by (simp add: pkts list_all2_conv_all_nth)
  then show own: "\<forall>k < fragment_count enc. own_fragment enc ?mid k (rs ! k)"
    using owns(2) carries_own_fragment by blast
  show "\<forall>r \<in> set rs. is_fragment r"
    using own n own_fragment_is_fragment [OF _ len(1)] len(2) by (fastforce simp: in_set_conv_nth)
qed

text \<open>Number \<open>l\<close> comes last; the reassembled ciphertext decrypts to the message.\<close>

lemma decode_long:
  assumes "ready env st" and "length dst = 6" and "463 < length message" and "length message \<le> 1007"
    and "message_cipher env st dst message = Inr enc" and "list_all2 carries (message_packets st dst enc) rs"
    and "rk = pair_schedule dst (my_mac st) (base_key st)"
    and "own_indices xs = {..<length rs} - {l}" and "l < length rs"
    and "\<forall>p. Inr p \<in> fst ` set xs \<longrightarrow> foreign (next_msg_id (frag_mgr st)) p"
    and "fm_ok rm" and "m_find (partials rm) (next_msg_id (frag_mgr st)) = None" and "2048 \<le> length buf"
  shows "\<exists>flags rm1 rm2 out. receive_all rm (traffic rs xs) buf 2048 = Inr (flags, rm1) \<and>
    reassemble_packet rm1 (rs ! l) now buf 2048 0 = Inr (True, rm2, out, length enc) \<and>
    decrypt_payload rk stack out (length enc) 2048 = Inr (string_bytes message)"
proof -
  note frag = message_fragments [OF assms(1-6)]
  have len: "length enc \<le> 65535" "length enc \<le> 2048" "length message \<le> 2048"
    using frag(5) assms(4) by simp_all
  from fragments_delivered [OF frag(1,2,4) len(1) assms(11,12,8,9,10) len(2) assms(13), of now 0]
  obtain flags rm1 rm2 where
    r: "receive_all rm (traffic rs xs) buf 2048 = Inr (flags, rm1)"
      "reassemble_packet rm1 (rs ! l) now buf 2048 0 = Inr (True, rm2, enc @ drop (length enc) buf, length enc)"
    by blast
  have "decrypt_payload rk stack (enc @ drop (length enc) buf) (length enc) 2048 = Inr (string_bytes message)"
    unfolding assms(7) by (rule message_decrypts [OF assms(1,4,2) len(3) assms(5)])
  then show ?thesis
    using r by blast
qed

section \<open>A message in two packets\<close>

definition long_text :: string where "long_text = replicate 500 CHR ''a''"

definition long_line :: string where "long_line = '' 01:01:01:01:01:01 '' @ long_text"

lemma long_line: "send_arguments long_line = (one_target, long_text)"
proof -
  have a: "\<not> is_space CHR ''a''" "CHR ''a'' \<noteq> CHR 0x0A"
    by (simp_all add: is_space_def)
  have "skip_ws ('' '' @ long_text) = long_text"
    using a by (simp add: skip_ws_def long_text_def is_space_def)
  moreover have "takeWhile (\<lambda>c. c \<noteq> CHR 0x0A) long_text = long_text"
    using a by (simp add: long_text_def)
  moreover have "scan_word long_line = Some (one_target, '' '' @ long_text)"
    by (simp add: long_line_def one_target_def scan_word_def skip_ws_def is_space_def Let_def)
  ultimately show ?thesis
    by (simp add: send_arguments_def)
qed

lemma long_text: "long_text \<noteq> []" "length long_text \<le> 1007" "463 < length long_text"
  by (simp_all add: long_text_def)

end
