(* ===== verification/Exchange.thy ===== *)
theory Exchange
  imports Delivery
begin

text \<open>
  The packets the nodes exchange on their own: what hearing a packet does before its type is
  looked at, the acknowledgement, and the answer to a \<open>DISCOVERY\<close> packet.  The properties
  themselves are in the root theory.
\<close>

section \<open>Hearing a packet\<close>

text \<open>The state the packet types start from: the source is a neighbour, its queue is sent.\<close>

definition heard :: "env \<Rightarrow> mac \<Rightarrow> node \<Rightarrow> node \<Rightarrow> bool" where
  "heard env src st st' \<longleftrightarrow>
     net st' = net st \<and> my_mac st' = my_mac st \<and> base_key st' = base_key st \<and> g_config st' = g_config st \<and>
     pending_acks st' = pending_acks st \<and> next_ack_seq st' = next_ack_seq st \<and> frag_mgr st' = frag_mgr st \<and>
     mac_to_string src \<in> set (known_neighbors st') \<and> set (known_neighbors st) \<subseteq> set (known_neighbors st') \<and>
     my_table st' = (if mac_to_string src \<in> set (known_neighbors st) then my_table st
                     else add_route (my_table st) src src 1 (time_now env)) \<and>
     (get_pending (queue st) src = [] \<longrightarrow> sent_frames st' = sent_frames st \<and> seq_num st' = seq_num st)"

lemma note_neighbor_table:
  "my_table (note_neighbor env src st) =
    (if mac_to_string src \<in> set (known_neighbors st) then my_table st else add_route (my_table st) src src 1 (time_now env))"
  "set (known_neighbors (note_neighbor env src st)) = insert (mac_to_string src) (set (known_neighbors st))"
  "pending_acks (note_neighbor env src st) = pending_acks st" "next_ack_seq (note_neighbor env src st) = next_ack_seq st"
  "queue (note_neighbor env src st) = queue st" "sent_frames (note_neighbor env src st) = sent_frames st"
  "seq_num (note_neighbor env src st) = seq_num st" "net (note_neighbor env src st) = net st"
  "my_mac (note_neighbor env src st) = my_mac st" "base_key (note_neighbor env src st) = base_key st"
  "g_config (note_neighbor env src st) = g_config st"
  by (auto simp: note_neighbor_def Let_def set_insort_key)

lemma handle_packet_heard:
  assumes "node_ok st" and "\<not> net_mutex st" and "wf_packet p" and "source (header p) = src"
  shows "\<exists>st'. handle_packet env p st = map_sum id unlock_net (dispatch env p st') \<and>
    node_ok st' \<and> net_mutex st' \<and> heard env src st st'"
proof -
  let ?st0 = "st \<lparr> net_mutex := True \<rparr>"
  let ?st1 = "note_neighbor env src ?st0"
  have src: "length src = 6"
    using assms(3,4) by (auto simp: wf_packet_def wf_header_def)
  have "node_ok ?st0"
    using assms(1) by (simp add: node_ok_def)
  then have st1: "keeps ?st0 ?st1"
    using note_neighbor_keeps src by blast
  then obtain es where es: "stores (queue ?st1) es"
    by (auto simp: keeps_def node_ok_def)
  let ?pend = "filter (\<lambda>e. dest_mac e = src) es"
  from auto_deliver_sends [OF es src refl, of env] obtain lt d where
    d: "auto_deliver env src ?st1 = Inr (?st1 \<lparr> log_text := lt, seq_num := seq_num ?st1 + of_nat (length ?pend), queue := d,
      sent_frames := sent_frames ?st1 @
        frames_to env (net ?st1) (zip (delivery_packets (my_mac ?st1) (seq_num ?st1) ?pend) (map dest_mac ?pend)) \<rparr>)"
      "stores d (filter (\<lambda>e. dest_mac e \<noteq> src) es)"
    by blast
  define st' where "st' = ?st1 \<lparr> log_text := lt, seq_num := seq_num ?st1 + of_nat (length ?pend), queue := d,
      sent_frames := sent_frames ?st1 @
        frames_to env (net ?st1) (zip (delivery_packets (my_mac ?st1) (seq_num ?st1) ?pend) (map dest_mac ?pend)) \<rparr>"
  have "handle_packet env p st = map_sum id unlock_net (dispatch env p st')"
    using assms(2,4) d(1)
    by (auto simp: handle_packet_def lock_net_def st'_def [symmetric] split: sum.splits)
  moreover have "node_ok st'" "net_mutex st'"
    using st1 d(2) by (auto simp: st'_def keeps_def node_ok_def same_identity_def)
  moreover have "?pend = []" if "get_pending (queue st) src = []"
    using that es by (simp add: note_neighbor_table get_pending_eq stores_get_all)
  then have "heard env src st st'"
    by (auto simp: heard_def st'_def note_neighbor_table)
  ultimately show ?thesis by blast
qed

section \<open>Acknowledgements\<close>

definition ack_packet :: "mac \<Rightarrow> mac \<Rightarrow> u32 \<Rightarrow> packet" where
  "ack_packet src dst s = set_payload (init ACK src dst s) (le_bytes 4 s)"

lemma transmit_open:
  assumes "0 \<le> sock_fd (net st)" and "if_index (net st) \<noteq> 0"
  shows "transmit env p dst st = st \<lparr> sent_frames := sent_frames st @ [frame_to env st dst p] \<rparr>"
  using assms by (auto simp: transmit_def send_packet_def frame_to_def not_less)

lemma send_ack_open:
  assumes "0 \<le> sock_fd (net st)" and "if_index (net st) \<noteq> 0"
  shows "send_ack env dst my s st = st \<lparr> sent_frames := sent_frames st @ [frame_to env st dst (ack_packet my dst s)] \<rparr>"
  using assms by (simp add: send_ack_def ack_packet_def transmit_open)

text \<open>An acknowledgement erases the entry under the sequence number it quotes, if there is one.\<close>

lemma ack_erases:
  assumes "node_ok st" and "\<not> net_mutex st" and "wf_packet q" and "ptype (header q) = ACK"
    and "4 \<le> unat (payload_len (header q))" and "take 4 (payload q) = le_bytes 4 (s :: u32)"
  shows "\<exists>st'. handle_packet env q st = Inr st' \<and>
    (\<forall>k. m_find (pending_acks st') k = (if k = s then None else m_find (pending_acks st) k))"
proof -
  from handle_packet_heard [OF assms(1-3) refl, of env] obtain st2 where
    st2: "handle_packet env q st = map_sum id unlock_net (dispatch env q st2)"
      "node_ok st2" "heard env (source (header q)) st st2"
    by blast
  have d: "dispatch env q st2 = Inr (handle_ack env q st2)"
    using assms(4) by (simp add: dispatch_def DISCOVERY_def ROUTE_ADV_def ACK_def)
  have "m_ok (pending_acks st2)"
    using st2(2) by (simp add: node_ok_def)
  then have "m_find (pending_acks (handle_ack env q st2)) k = (if k = s then None else m_find (pending_acks st2) k)" for k
    using assms(5,6) by (auto simp: handle_ack_def Let_def m_find_erase split: option.splits)
  then show ?thesis
    using st2(1,3) by (intro exI [of _ "unlock_net (handle_ack env q st2)"]) (simp add: d heard_def unlock_net_def)
qed

section \<open>Discovery\<close>

definition hello_packet :: "node \<Rightarrow> packet" where
  "hello_packet st = set_payload
     ((init DISCOVERY (my_mac st) broadcast (seq_num st))
        \<lparr> header := (header (init DISCOVERY (my_mac st) broadcast (seq_num st))) \<lparr> ttl := discovery_ttl (g_config st) \<rparr> \<rparr>)
     (string_bytes ''ARABA Hello!'')"

lemma hello_packet_spec:
  assumes "length (my_mac st) = 6"
  shows "wf_packet (hello_packet st)" and "unat (payload_len (header (hello_packet st))) \<le> MAX_PAYLOAD_SIZE"
    and "ptype (header (hello_packet st)) = DISCOVERY" and "source (header (hello_packet st)) = my_mac st"
    and "ttl (header (hello_packet st)) = discovery_ttl (g_config st)"
  using assms by (simp_all add: hello_packet_def broadcast_def wf_packet_def wf_header_def set_payload_def init_def
      string_bytes_def MAX_PAYLOAD_SIZE_def)

lemma send_hello_open:
  assumes "0 \<le> sock_fd (net st)" and "if_index (net st) \<noteq> 0"
  shows "send_hello env st =
    st \<lparr> seq_num := seq_num st + 1, sent_frames := sent_frames st @ [frame_to env st broadcast (hello_packet st)] \<rparr>"
  using assms by (simp add: send_hello_def Let_def transmit_open next_seq_def hello_packet_def frame_to_def)

lemma hello_answered:
  assumes "node_ok st" and "\<not> net_mutex st" and "env_ok env" and "0 \<le> sock_fd (net st)" and "if_index (net st) \<noteq> 0"
    and "wf_packet h" and "ptype (header h) = DISCOVERY" and "source (header h) = src" and "get_pending (queue st) src = []"
  shows "\<exists>st' len buf. handle_packet env h st = Inr st' \<and>
    mac_to_string src \<in> set (known_neighbors st') \<and>
    pack_routes (known_neighbors st') (adv_memory env) 512 = Inr (len, buf) \<and>
    sent_frames st' = sent_frames st @
      [frame_to env st src (set_payload (init ROUTE_ADV (my_mac st) src (seq_num st)) (take len buf))]"
proof -
  have my: "length (adv_memory env) = 512"
    using assms(3) by (simp add: env_ok_def)
  from handle_packet_heard [OF assms(1,2,6,8), of env] obtain st2 where
    st2: "handle_packet env h st = map_sum id unlock_net (dispatch env h st2)" "heard env src st st2"
    by blast
  obtain len buf where adv: "pack_routes (known_neighbors st2) (adv_memory env) 512 = Inr (len, buf)" "len \<le> 512"
    using pack_routes_eq [OF my, of "known_neighbors st2"] by (auto simp: Let_def)
  let ?r = "set_payload (init ROUTE_ADV (my_mac st) src (seq_num st)) (take len buf)"
  have same: "net st2 = net st" "my_mac st2 = my_mac st" "seq_num st2 = seq_num st" "sent_frames st2 = sent_frames st"
    using st2(2) assms(9) by (simp_all add: heard_def)
  then have "dispatch env h st2 = Inr (transmit env ?r src (next_seq st2))"
    using assms(7,8) adv by (simp add: dispatch_def handle_discovery_def MAX_PAYLOAD_SIZE_def)
  moreover have "transmit env ?r src (next_seq st2) = (next_seq st2) \<lparr> sent_frames := sent_frames st @ [frame_to env st src ?r] \<rparr>"
    using same assms(4,5) by (simp add: transmit_open frame_to_def)
  ultimately have "handle_packet env h st =
      Inr (unlock_net ((next_seq st2) \<lparr> sent_frames := sent_frames st @ [frame_to env st src ?r] \<rparr>))"
    by (simp add: st2(1))
  then show ?thesis
    using st2(2) adv(1)
    by (intro exI [of _ "unlock_net ((next_seq st2) \<lparr> sent_frames := sent_frames st @ [frame_to env st src ?r] \<rparr>)"]
        exI [of _ len] exI [of _ buf]) (simp add: heard_def unlock_net_def)
qed

lemma short_routes:
  assumes "table_ok t" and "n \<in> set ns" and "length via = 6"
  shows "\<exists>r. known_route (learn_routes t (adv_updates (map (\<lambda>n. (string_to_mac n, 1)) ns) via (\<lambda>i. now) 0)) (string_to_mac n) =
    Some r \<and> fst (snd r) \<le> 2"
proof -
  let ?us = "adv_updates (map (\<lambda>n. (string_to_mac n, 1)) ns) via (\<lambda>i. now) 0"
  obtain i where "i < length ns" "ns ! i = n"
    using assms(2) by (auto simp: in_set_conv_nth)
  then have "(i, n) \<in> set (enumerate 0 ns)"
    by (simp add: in_set_enumerate_eq)
  then have u: "\<lparr> u_dest = string_to_mac n, u_hop = via, u_hops = 2, u_time = now \<rparr> \<in> set ?us"
    by (force simp: adv_updates_def map_enumerate_map)
  have "sized_updates ?us"
    using assms(3) by (auto simp: sized_updates_def adv_updates_def map_enumerate_map)
  then show ?thesis
    using routes.no_offer_shorter [of t ?us "string_to_mac n", OF assms(1) _ _ u]
    by (simp add: learn_routes_eq sized_updates_eq del: split_paired_Ex)
qed

lemma adv_carried:
  assumes "length src = 6" and "length dst = 6" and "length mem = 512" and "pack_routes ns mem 512 = Inr (len, buf)"
  shows "carries (set_payload (init ROUTE_ADV src dst seq) (take len buf)) (set_payload (init ROUTE_ADV src dst seq) (take len buf))"
proof -
  have "len \<le> 512" "length buf = 512"
    using assms(4) unfolding pack_routes_eq [OF assms(3)]
    by (auto simp: Let_def assms(3) length_concat comp_def sum_list_triv)
  then show ?thesis
    using assms(1,2) by (simp add: carries_def MAX_PAYLOAD_SIZE_def unat_of_nat_u16)
qed

lemma adv_learned:
  assumes "node_ok st" and "\<not> net_mutex st" and "length via = 6" and "length mem = 512"
    and "pack_routes ns mem 512 = Inr (len, buf)"
    and "carries (set_payload (init ROUTE_ADV via (my_mac st) seq) (take len buf)) q"
  shows "\<exists>st'. handle_packet env q st = Inr st' \<and>
    mac_to_string via \<in> set (known_neighbors st') \<and>
    (\<forall>n \<in> set (take 73 ns). \<exists>r. known_route (my_table st') (string_to_mac n) = Some r \<and> fst (snd r) \<le> 2)"
proof -
  have len: "len \<le> 512" "length buf = 512"
    using assms(5) unfolding pack_routes_eq [OF assms(4)]
    by (auto simp: Let_def assms(4) length_concat comp_def sum_list_triv)
  have q: "wf_packet q" "source (header q) = via" "ptype (header q) = ROUTE_ADV"
      "payload_bytes q = take len buf" "payload_len (header q) = of_nat len"
    using assms(6) len by (simp_all add: carries_def MAX_PAYLOAD_SIZE_def)
  have q_len: "unat (payload_len (header q)) = len"
    using q(5) len(1) by (simp add: unat_of_nat_u16)
  have q_pay: "take len (payload q) = take len buf"
    using q(4) by (simp add: payload_bytes_def q_len)
  from handle_packet_heard [OF assms(1,2) q(1,2), of env] obtain st2 where
    st2: "handle_packet env q st = map_sum id unlock_net (dispatch env q st2)" "node_ok st2" "heard env via st st2"
    by blast
  let ?t = "learn_routes (my_table st2) (adv_updates (map (\<lambda>n. (string_to_mac n, 1)) (take 73 ns)) via (\<lambda>i. time_now env) 0)"
  have pay: "payload q = take len buf @ drop len (payload q)"
    using append_take_drop_id [of len "payload q"] q_pay by simp
  have "unpack_routes (payload q) len via (\<lambda>i. time_now env) (my_table st2) = Inr ?t"
    by (subst pay) (rule pack_unpack_tail [OF assms(4,5)])
  then have "dispatch env q st2 =
      Inr (log_event env (''ROUTE_ADV from '' @ mac_to_string via) (st2 \<lparr> my_table := ?t \<rparr>))"
    using q(2,3) q_len by (simp add: dispatch_def handle_route_adv_def DISCOVERY_def ROUTE_ADV_def)
  moreover have "table_ok (my_table st2)"
    using st2(2) by (simp add: node_ok_def)
  then have "\<forall>n \<in> set (take 73 ns). \<exists>r. known_route ?t (string_to_mac n) = Some r \<and> fst (snd r) \<le> 2"
    using short_routes [OF _ _ assms(3)] by blast
  ultimately show ?thesis
    using st2(1,3)
    by (intro exI [of _ "unlock_net (log_event env (''ROUTE_ADV from '' @ mac_to_string via) (st2 \<lparr> my_table := ?t \<rparr>))"])
      (simp add: heard_def unlock_net_def del: split_paired_Ex)
qed

end
