(* ===== verification/Stages.thy ===== *)
theory Stages
  imports Sending
begin

text \<open>
  \<open>send\<close> as the main thread of \<open>src/araba_node.cpp\<close> runs it next to the network thread: a
  sequence of stages, each a critical section of its own or a part that takes no lock, with
  what the thread keeps in local variables between them.
\<close>

section \<open>The stages\<close>

text \<open>
  Before \<open>get_pair_cipher\<close>, before the encryption, before the next fragment is sent (or, with
  none left, the message entered as pending), and before the next one is queued.
\<close>

datatype stage =
    Pairing string string bool
  | Encrypting string string bool bytes
  | Transmitting string string u32 "packet list"
  | Queueing string "packet list"

text \<open>From the arguments to the end of the first critical section; \<open>None\<close> is the usage message.\<close>

definition begin_send :: "env \<Rightarrow> string \<Rightarrow> node \<Rightarrow> fault + (stage option \<times> node)" where
  "begin_send env args st =
     (let (target_mac, message) = send_arguments args
      in if target_mac = [] \<or> message = [] then Inr (None, st)
         else
           (case with_lock (\<lambda>st. (reachable env target_mac (string_to_mac target_mac) st, st)) st of
              Inl e \<Rightarrow> Inl e
            | Inr (is_reachable, st) \<Rightarrow> Inr (Some (Pairing target_mac message is_reachable), st)))"

fun send_stage :: "env \<Rightarrow> stage \<Rightarrow> node \<Rightarrow> fault + (stage option \<times> node)" where
  "send_stage env (Pairing target_mac message is_reachable) st =
     (case get_pair_cipher env (string_to_mac target_mac) (my_mac st) st of
        Inl e \<Rightarrow> Inl e
      | Inr (aes, st) \<Rightarrow> Inr (Some (Encrypting target_mac message is_reachable aes), st))"
| "send_stage env (Encrypting target_mac message is_reachable aes) st =
     (case encrypt_payload aes (of_int (steady env)) (string_bytes message) (encrypt_memory env) of
        Inl e \<Rightarrow> Inl e
      | Inr encrypted \<Rightarrow>
          if encrypted = [] then Inr (None, st)
          else
            (case fragment_message (frag_mgr st) encrypted DATA (my_mac st) (string_to_mac target_mac) (seq_num st) of
               (frags, fm, seq) \<Rightarrow>
                 (let st = st \<lparr> frag_mgr := fm, seq_num := seq \<rparr>
                  in if is_reachable
                     then Inr (Some (Transmitting target_mac message (next_ack_seq st) frags),
                               st \<lparr> next_ack_seq := next_ack_seq st + 1 \<rparr>)
                     else Inr (Some (Queueing target_mac frags), st))))"
| "send_stage env (Transmitting target_mac message ack_seq (p # ps)) st =
     (case with_lock (\<lambda>st. ((), transmit env p (string_to_mac target_mac) st)) st of
        Inl e \<Rightarrow> Inl e
      | Inr (_, st) \<Rightarrow> Inr (Some (Transmitting target_mac message ack_seq ps), st))"
| "send_stage env (Transmitting target_mac message ack_seq []) st =
     (let pa = \<lparr> ack_dest = string_to_mac target_mac, retries = 0, sent_time = steady env,
                 original_msg = message, ack_seq_num = ack_seq \<rparr>
      in case with_lock (\<lambda>st. ((), st \<lparr> pending_acks := m_put ack_seq pa (pending_acks st) \<rparr>)) st of
           Inl e \<Rightarrow> Inl e
         | Inr (_, st) \<Rightarrow> Inr (None, st))"
| "send_stage env (Queueing target_mac (p # ps)) st =
     (case enqueue (junk_version env) (junk_count env) (queue st) (string_to_mac target_mac) (payload p)
             (payload_len (header p)) (time_now env) of
        Inl e \<Rightarrow> Inl e
      | Inr (_, d) \<Rightarrow> Inr (Some (Queueing target_mac ps), st \<lparr> queue := d \<rparr>))"
| "send_stage env (Queueing target_mac []) st = Inr (None, st)"

text \<open>The packets a stage still has to handle fit.\<close>

fun stage_ok :: "stage \<Rightarrow> bool" where
  "stage_ok (Transmitting t m a ps) = (\<forall>p \<in> set ps. sendable p)"
| "stage_ok (Queueing t ps) = (\<forall>p \<in> set ps. sendable p)"
| "stage_ok s = True"

section \<open>One stage at a time\<close>

text \<open>What both threads rely on.\<close>

definition shared_ok :: "node \<Rightarrow> bool" where
  "shared_ok st \<longleftrightarrow> node_ok st \<and> cache_ok st \<and> \<not> net_mutex st"

lemma cipher_length:
  assumes "encrypt_payload rk now x out = Inr e" and "length out = LOCAL_BUFFER"
  shows "length e \<le> 1024"
proof -
  consider "length x \<le> 1007" | "1008 \<le> length x \<and> length x \<le> 1024" | "1024 < length x"
    by linarith
  then show ?thesis
  proof cases
    case 1
    then have "length e = 16 + ((length x + 16) div 16) * 16"
      using payload_codec [OF 1 assms(2) 1, of rk now] assms(1) by auto
    then show ?thesis
      using 1 by simp
  next
    case 2
    then show ?thesis
      using encrypt_payload_rejects [of x out rk now] assms by (simp add: LOCAL_BUFFER_def)
  next
    case 3
    then show ?thesis
      using encrypt_payload_overflows [of x out rk now] assms by (simp add: LOCAL_BUFFER_def)
  qed
qed

lemma begin_send_free:
  assumes "shared_ok st"
  shows "\<exists>s. begin_send env args st = Inr (s, st) \<and> (\<forall>s'. s = Some s' \<longrightarrow> stage_ok s')"
proof -
  have "\<not> net_mutex st"
    using assms by (simp add: shared_ok_def)
  then show ?thesis
    by (auto simp: begin_send_def Let_def with_lock_free unlock_net_def split: prod.splits)
qed

text \<open>A stage from a consistent state: it never finds the mutex locked and keeps the state.\<close>

definition stage_result :: "node \<Rightarrow> fault + (stage option \<times> node) \<Rightarrow> bool" where
  "stage_result st r \<longleftrightarrow> r \<noteq> Inl Relock \<and>
     (\<forall>s' st'. r = Inr (s', st') \<longrightarrow> shared_ok st' \<and> net st' = net st \<and> (\<forall>s''. s' = Some s'' \<longrightarrow> stage_ok s''))"

lemma stage_resultI: "shared_ok st' \<Longrightarrow> net st' = net st \<Longrightarrow> (\<And>s''. s' = Some s'' \<Longrightarrow> stage_ok s'') \<Longrightarrow> stage_result st (Inr (s', st'))"
  by (simp add: stage_result_def)

lemma encrypting_result:
  assumes "shared_ok st" and "env_ok env"
  shows "stage_result st (send_stage env (Encrypting t m r aes) st)"
proof (cases "encrypt_payload aes (of_int (steady env)) (string_bytes m) (encrypt_memory env)")
  case (Inl e)
  have "length (encrypt_memory env) = LOCAL_BUFFER"
    using assms(2) by (simp add: env_ok_def)
  then have "e \<noteq> Relock"
    using Inl payload_codec [of "string_bytes m" "encrypt_memory env" 1007 aes "of_int (steady env)"]
      encrypt_payload_rejects [of "string_bytes m" "encrypt_memory env" aes "of_int (steady env)"]
      encrypt_payload_overflows [of "string_bytes m" "encrypt_memory env" aes "of_int (steady env)"]
    by (cases "length m \<le> 1007"; cases "length m \<le> 1024") (auto simp: LOCAL_BUFFER_def)
  then show ?thesis
    by (simp add: Inl stage_result_def)
next
  case (Inr enc)
  have st: "length (my_mac st) = 6" "fm_ok (frag_mgr st)" "length (encrypt_memory env) = LOCAL_BUFFER"
    using assms by (simp_all add: shared_ok_def node_ok_def env_ok_def)
  note len = cipher_length [OF Inr st(3)]
  obtain ps fm seq where f: "fragment_message (frag_mgr st) enc DATA (my_mac st) (string_to_mac t) (seq_num st) = (ps, fm, seq)"
    by (metis prod_cases3)
  have dst: "length (string_to_mac t) = 6" by simp
  have ps: "\<forall>p \<in> set ps. sendable p" "fm_ok fm"
    using fragment_message_sendable [OF len st(1) dst f] fm_ok_fragment_message [OF len st(1) dst f st(2)] by simp_all
  have "shared_ok (st \<lparr> frag_mgr := fm, seq_num := seq \<rparr>)"
      "shared_ok (st \<lparr> frag_mgr := fm, seq_num := seq, next_ack_seq := next_ack_seq st + 1 \<rparr>)"
    using assms(1) ps(2) by (simp_all add: shared_ok_def node_ok_def cache_ok_def)
  then show ?thesis
    using assms(1) ps(1) by (auto simp: Inr f Let_def stage_result_def)
qed

lemma send_stage_keeps:
  assumes "shared_ok st" and "env_ok env" and "stage_ok s"
  shows "stage_result st (send_stage env s st)"
proof -
  have free: "\<not> net_mutex st" "node_ok st" "cache_ok st"
    using assms(1) by (simp_all add: shared_ok_def)
  show ?thesis
  proof (cases s)
    case (Pairing t m r)
    have "length (string_to_mac t) = 6" by simp
    from get_pair_cipher_free [OF free(1) assms(2) free(3) this] obtain cs where
      "get_pair_cipher env (string_to_mac t) (my_mac st) st =
        Inr (pair_schedule (my_mac st) (string_to_mac t) (base_key st), st \<lparr> pair_ciphers := cs \<rparr>)"
      "node_ok (st \<lparr> pair_ciphers := cs \<rparr>)" "cache_ok (st \<lparr> pair_ciphers := cs \<rparr>)"
      using free(2) by blast
    then show ?thesis
      using free(1) by (simp add: Pairing stage_result_def shared_ok_def)
  next
    case (Encrypting t m r aes)
    then show ?thesis
      using encrypting_result [OF assms(1,2)] by simp
  next
    case (Transmitting t m a ps)
    show ?thesis
    proof (cases ps)
      case Nil
      have "m_ok (m_put a pa (pending_acks st))" for pa
        using free(2) by (simp add: node_ok_def m_ok_put)
      then show ?thesis
        using free by (simp add: Transmitting Nil with_lock_free stage_result_def shared_ok_def unlock_net_def
            node_ok_def cache_ok_def Let_def)
    next
      case (Cons p ps')
      then show ?thesis
        using free assms(3) by (simp add: Transmitting with_lock_free stage_result_def shared_ok_def unlock_net_def
            cache_ok_def)
    qed
  next
    case (Queueing t ps)
    show ?thesis
    proof (cases ps)
      case Nil
      then show ?thesis
        using assms(1) by (simp add: Queueing stage_result_def)
    next
      case (Cons p ps')
      obtain es where es: "stores (queue st) es"
        using free(2) by (auto simp: node_ok_def)
      have p: "unat (payload_len (header p)) \<le> length (payload p)" "unat (payload_len (header p)) \<le> MAX_PAYLOAD_SIZE"
        using assms(3) by (simp_all add: Queueing Cons sendable_def)
      have "length (string_to_mac t) = 6" by simp
      from enqueue_stores [OF es p this] obtain d es' where
        "enqueue (junk_version env) (junk_count env) (queue st) (string_to_mac t) (payload p) (payload_len (header p)) (time_now env) =
          Inr (True, d)" "stores d es'"
        by blast
      then show ?thesis
        using assms(1,3) by (auto simp: Queueing Cons stage_result_def shared_ok_def node_ok_def cache_ok_def)
    qed
  qed
qed

text \<open>A stage while the other thread holds the mutex: it sends, receives and logs nothing.\<close>

definition quiet :: "node \<Rightarrow> node \<Rightarrow> bool" where
  "quiet st st' \<longleftrightarrow> net_mutex st' \<and> sent_frames st' = sent_frames st \<and> log_text st' = log_text st \<and>
     known_neighbors st' = known_neighbors st \<and> my_table st' = my_table st \<and> pending_acks st' = pending_acks st"

lemma quiet_refl: "net_mutex st \<Longrightarrow> quiet st st"
  by (simp add: quiet_def)

lemma quiet_trans: "quiet a b \<Longrightarrow> quiet b c \<Longrightarrow> quiet a c"
  by (simp add: quiet_def)

lemma with_lock_held: "net_mutex st \<Longrightarrow> with_lock f st = Inl Relock"
  by (simp add: with_lock_def lock_net_def)

lemma send_stage_held:
  assumes "net_mutex st" and "send_stage env s st = Inr (s', st')"
  shows "quiet st st'"
  using assms
proof (cases s)
  case (Transmitting t m a ps)
  then show ?thesis
    using assms by (cases ps) (simp_all add: with_lock_held)
next
  case (Queueing t ps)
  then show ?thesis
    using assms by (cases ps) (auto simp: quiet_def split: sum.splits)
qed (auto simp: get_pair_cipher_locked quiet_def Let_def split: sum.splits prod.splits if_splits)

lemma begin_send_held: "net_mutex st \<Longrightarrow> begin_send env args st = Inr (s, st') \<Longrightarrow> s = None \<and> st' = st"
  by (auto simp: begin_send_def with_lock_held split: prod.splits if_splits)

section \<open>The stages one after the other\<close>

text \<open>
  Run without a pause, the stages end in the state \<open>send_command\<close> returns.
\<close>

inductive finishes :: "env \<Rightarrow> stage \<Rightarrow> node \<Rightarrow> node \<Rightarrow> bool" for env where
  finishes_last: "send_stage env s st = Inr (None, st') \<Longrightarrow> finishes env s st st'"
| finishes_step: "send_stage env s st = Inr (Some s', st1) \<Longrightarrow> finishes env s' st1 st' \<Longrightarrow> finishes env s st st'"

lemma transmit_finishes:
  assumes "send_fragments env (string_to_mac t) ps st = Inr st1"
    and "send_stage env (Transmitting t m a []) st1 = Inr (None, st')"
  shows "finishes env (Transmitting t m a ps) st st'"
  using assms
proof (induction ps arbitrary: st)
  case Nil
  then have "st1 = st" by simp
  then have "send_stage env (Transmitting t m a []) st = Inr (None, st')"
    using Nil.prems(2) by (simp only:)
  then show ?case by (rule finishes_last)
next
  case (Cons p ps)
  let ?lock = "with_lock (\<lambda>st. ((), transmit env p (string_to_mac t) st)) st"
  obtain u st2 where st2: "?lock = Inr (u, st2)"
    using Cons.prems(1) by (cases ?lock) auto
  then have "send_fragments env (string_to_mac t) ps st2 = Inr st1"
    using Cons.prems(1) by simp
  then have "finishes env (Transmitting t m a ps) st2 st'"
    using Cons.IH Cons.prems(2) by blast
  moreover have "send_stage env (Transmitting t m a (p # ps)) st = Inr (Some (Transmitting t m a ps), st2)"
    using st2 by simp
  ultimately show ?case
    by (rule finishes_step [rotated])
qed

lemma queue_finishes:
  "queue_fragments env (string_to_mac t) ps st = Inr st' \<Longrightarrow> finishes env (Queueing t ps) st st'"
proof (induction ps arbitrary: st)
  case Nil
  then show ?case by (intro finishes_last) simp
next
  case (Cons p ps)
  let ?enq = "enqueue (junk_version env) (junk_count env) (queue st) (string_to_mac t) (payload p) (payload_len (header p)) (time_now env)"
  obtain b d where d: "?enq = Inr (b, d)"
    using Cons.prems by (cases ?enq) auto
  then have "finishes env (Queueing t ps) (st \<lparr> queue := d \<rparr>) st'"
    using Cons by simp
  moreover have "send_stage env (Queueing t (p # ps)) st = Inr (Some (Queueing t ps), st \<lparr> queue := d \<rparr>)"
    using d by simp
  ultimately show ?case
    by (rule finishes_step [rotated])
qed

lemma encrypting_finishes:
  assumes "encrypt_payload aes (of_int (steady env)) (string_bytes m) (encrypt_memory env) = Inr enc"
    and "if enc = [] then st' = st else \<exists>txt. dispatch_message env r t (string_to_mac t) m enc st = Inr (txt, st')"
  shows "finishes env (Encrypting t m r aes) st st'"
proof (cases "enc = []")
  case True
  then show ?thesis
    using assms by (intro finishes_last) simp
next
  case False
  obtain ps fm seq where f: "fragment_message (frag_mgr st) enc DATA (my_mac st) (string_to_mac t) (seq_num st) = (ps, fm, seq)"
    by (metis prod_cases3)
  let ?st = "st \<lparr> frag_mgr := fm, seq_num := seq \<rparr>"
  show ?thesis
  proof (cases r)
    case True
    let ?st1 = "?st \<lparr> next_ack_seq := next_ack_seq st + 1 \<rparr>"
    have d: "\<exists>txt. dispatch_message env True t (string_to_mac t) m enc st = Inr (txt, st')"
      using assms(2) False True by simp
    then obtain st2 where st2: "send_fragments env (string_to_mac t) ps ?st1 = Inr st2"
      by (cases "send_fragments env (string_to_mac t) ps ?st1") (auto simp: dispatch_message_def f Let_def)
    then have "send_stage env (Transmitting t m (next_ack_seq st) []) st2 = Inr (None, st')"
      using d by (auto simp: dispatch_message_def f Let_def split: sum.splits)
    from transmit_finishes [OF st2 this] have "finishes env (Transmitting t m (next_ack_seq st) ps) ?st1 st'" .
    moreover have "send_stage env (Encrypting t m r aes) st = Inr (Some (Transmitting t m (next_ack_seq st) ps), ?st1)"
      using assms(1) False True f by (simp add: Let_def)
    ultimately show ?thesis
      by (rule finishes_step [rotated])
  next
    case r: False
    have d: "\<exists>txt. dispatch_message env False t (string_to_mac t) m enc st = Inr (txt, st')"
      using assms(2) False r by simp
    then have "queue_fragments env (string_to_mac t) ps ?st = Inr st'"
      by (cases "queue_fragments env (string_to_mac t) ps ?st") (auto simp: dispatch_message_def f Let_def)
    from queue_finishes [OF this] have "finishes env (Queueing t ps) ?st st'" .
    moreover have "send_stage env (Encrypting t m False aes) st = Inr (Some (Queueing t ps), ?st)"
      using assms(1) False f by (simp add: Let_def)
    ultimately show ?thesis
      using r by (simp add: finishes_step)
  qed
qed

lemma send_command_stages:
  assumes "send_command env args st = Inr (txt, st')"
  shows "begin_send env args st = Inr (None, st) \<and> st' = st \<or>
    (\<exists>s st1. begin_send env args st = Inr (Some s, st1) \<and> finishes env s st1 st')"
proof -
  obtain t m where args: "send_arguments args = (t, m)"
    by (cases "send_arguments args")
  show ?thesis
  proof (cases "t = [] \<or> m = []")
    case True
    then show ?thesis
      using assms args by (auto simp: send_command_def begin_send_def)
  next
    case False
    let ?lock = "with_lock (\<lambda>st. (reachable env t (string_to_mac t) st, st)) st"
    obtain r st1 where w1: "?lock = Inr (r, st1)"
      using assms args False by (cases ?lock) (auto simp: send_command_def)
    obtain aes st2 where w2: "get_pair_cipher env (string_to_mac t) (my_mac st1) st1 = Inr (aes, st2)"
      using assms args False w1 by (cases "get_pair_cipher env (string_to_mac t) (my_mac st1) st1") (auto simp: send_command_def)
    obtain enc where w3: "encrypt_payload aes (of_int (steady env)) (string_bytes m) (encrypt_memory env) = Inr enc"
      using assms args False w1 w2
      by (cases "encrypt_payload aes (of_int (steady env)) (string_bytes m) (encrypt_memory env)") (auto simp: send_command_def)
    have w4: "if enc = [] then st' = st2 else dispatch_message env r t (string_to_mac t) m enc st2 = Inr (txt, st')"
      using assms args False w1 w2 w3 by (auto simp: send_command_def)
    note w = w1 w2 w3 w4
    have "finishes env (Encrypting t m r aes) st2 st'"
      using w(4) by (intro encrypting_finishes [OF w(3)]) auto
    moreover have "send_stage env (Pairing t m r) st1 = Inr (Some (Encrypting t m r aes), st2)"
      using w(2) by simp
    ultimately have "finishes env (Pairing t m r) st1 st'"
      by (rule finishes_step [rotated])
    moreover have "begin_send env args st = Inr (Some (Pairing t m r), st1)"
      using False args w(1) by (simp add: begin_send_def)
    ultimately show ?thesis by blast
  qed
qed

end
