(* ===== verification/Races.thy ===== *)
theory Races
  imports Stages
begin

text \<open>
  Which of the data both threads of \<open>src/araba_node.cpp\<close> share an operation reads and writes,
  and whether it holds \<open>net_mutex\<close> meanwhile.  The tables are written next to the code and
  checked against its model: what an operation does not list as written it does not change;
  what an operation of the main thread does not list as read has no influence on what it
  prints or goes on with; and an operation finds a held mutex exactly when it is listed as
  locked.
\<close>

section \<open>Operations\<close>

text \<open>
  The parts of one iteration of \<open>network_loop\<close>; \<open>Receiving i\<close> is pass \<open>i\<close> of the receive loop.
  The main thread executes a line, or one stage of \<open>send\<close>.
\<close>

datatype net_op = Saying_hello | Receiving nat | Sweeping | Expiring

datatype main_op = Line string | Stage stage

text \<open>
  What is shared and changes: the neighbours, the routing table, \<open>seq_num\<close>, the queue file, the
  cipher cache, the two members of the fragment manager, the pending messages and their
  counter.  (The rest is constant while the threads run or used by one of them; \<open>running\<close>
  is a flag of one byte, and a line of the log is appended by one write.)
\<close>

datatype var = Neighbours | Routes | Seq | Queue_file | Ciphers | Partials | Msg_id | Pendings | Ack_counter

section \<open>Locks\<close>

definition line_words :: "string \<Rightarrow> string \<times> string" where
  "line_words line = (case scan_word line of None \<Rightarrow> ([], []) | Some cr \<Rightarrow> cr)"

text \<open>\<open>send\<close> with an address and a message.\<close>

definition sends :: "string \<Rightarrow> bool" where
  "sends line \<longleftrightarrow> fst (line_words line) = ''send'' \<and>
     fst (send_arguments (snd (line_words line))) \<noteq> [] \<and> snd (send_arguments (snd (line_words line))) \<noteq> []"

definition is_send :: "string \<Rightarrow> string option" where
  "is_send line = (case scan_word line of
     None \<Rightarrow> None | Some (command, rest) \<Rightarrow> if command = ''send'' then Some rest else None)"

fun net_locked :: "net_op \<Rightarrow> bool" where
  "net_locked (Receiving i) = True"
| "net_locked a = False"

fun stage_locked :: "stage \<Rightarrow> bool" where
  "stage_locked (Pairing t m r) = True"
| "stage_locked (Encrypting t m r aes) = False"
| "stage_locked (Transmitting t m a ps) = True"
| "stage_locked (Queueing t ps) = False"

fun main_locked :: "main_op \<Rightarrow> bool" where
  "main_locked (Line line) = (fst (line_words line) = ''list'' \<or> fst (line_words line) = ''pending'' \<or> sends line)"
| "main_locked (Stage s) = stage_locked s"

section \<open>Reads and writes\<close>

fun net_reads :: "net_op \<Rightarrow> var set" where
  "net_reads Saying_hello = {Seq}"
| "net_reads (Receiving i) = {Neighbours, Routes, Seq, Queue_file, Ciphers, Partials, Pendings}"
| "net_reads Sweeping = {Pendings}"
| "net_reads Expiring = {Partials}"

fun net_writes :: "net_op \<Rightarrow> var set" where
  "net_writes Saying_hello = {Seq}"
| "net_writes (Receiving i) = {Neighbours, Routes, Seq, Queue_file, Ciphers, Partials, Pendings}"
| "net_writes Sweeping = {Pendings}"
| "net_writes Expiring = {Partials}"

definition line_reads :: "string \<Rightarrow> var set" where
  "line_reads line =
     (let command = fst (line_words line)
      in if command = ''list'' then {Neighbours}
         else if command = ''table'' then {Routes}
         else if command = ''queue'' then {Queue_file}
         else if command = ''pending'' then {Pendings}
         else if sends line then {Neighbours, Routes}
         else {})"

fun stage_reads :: "stage \<Rightarrow> var set" where
  "stage_reads (Pairing t m r) = {Ciphers}"
| "stage_reads (Encrypting t m r aes) = {Seq, Msg_id, Ack_counter}"
| "stage_reads (Transmitting t m a (p # ps)) = {}"
| "stage_reads (Transmitting t m a []) = {Pendings}"
| "stage_reads (Queueing t (p # ps)) = {Queue_file}"
| "stage_reads (Queueing t []) = {}"

fun stage_writes :: "stage \<Rightarrow> var set" where
  "stage_writes (Pairing t m r) = {Ciphers}"
| "stage_writes (Encrypting t m r aes) = {Seq, Msg_id, Ack_counter}"
| "stage_writes (Transmitting t m a (p # ps)) = {}"
| "stage_writes (Transmitting t m a []) = {Pendings}"
| "stage_writes (Queueing t (p # ps)) = {Queue_file}"
| "stage_writes (Queueing t []) = {}"

fun main_reads :: "main_op \<Rightarrow> var set" where
  "main_reads (Line line) = line_reads line"
| "main_reads (Stage s) = stage_reads s"

fun main_writes :: "main_op \<Rightarrow> var set" where
  "main_writes (Line line) = {}"
| "main_writes (Stage s) = stage_writes s"

text \<open>Two accesses to the same data, one of them a write.\<close>

definition clash :: "net_op \<Rightarrow> main_op \<Rightarrow> bool" where
  "clash a b \<longleftrightarrow> net_writes a \<inter> (main_reads b \<union> main_writes b) \<noteq> {} \<or> net_reads a \<inter> main_writes b \<noteq> {}"

text \<open>The clashing pairs that no common lock keeps apart, written out.\<close>

fun unguarded :: "net_op \<Rightarrow> main_op \<Rightarrow> bool" where
  "unguarded Saying_hello (Stage (Encrypting t m r aes)) = True"
| "unguarded (Receiving i) (Line line) = (fst (line_words line) = ''table'' \<or> fst (line_words line) = ''queue'')"
| "unguarded (Receiving i) (Stage (Encrypting t m r aes)) = True"
| "unguarded (Receiving i) (Stage (Queueing t (p # ps))) = True"
| "unguarded Sweeping (Line line) = (fst (line_words line) = ''pending'')"
| "unguarded Sweeping (Stage (Transmitting t m a [])) = True"
| "unguarded a b = False"

lemma unguarded_iff: "unguarded a b \<longleftrightarrow> clash a b \<and> \<not> (net_locked a \<and> main_locked b)"
proof (cases b)
  case (Line line)
  then show ?thesis
    by (cases a) (auto simp: clash_def line_reads_def Let_def sends_def)
next
  case (Stage s)
  then show ?thesis
  proof (cases s)
    case (Transmitting t m k ps)
    then show ?thesis
      using Stage by (cases a; cases ps) (simp_all add: clash_def)
  next
    case (Queueing t ps)
    then show ?thesis
      using Stage by (cases a; cases ps) (simp_all add: clash_def)
  qed (cases a; simp add: Stage clash_def)+
qed

section \<open>The tables and the code\<close>

fun same_at :: "var \<Rightarrow> node \<Rightarrow> node \<Rightarrow> bool" where
  "same_at Neighbours a b = (known_neighbors a = known_neighbors b)"
| "same_at Routes a b = (my_table a = my_table b)"
| "same_at Seq a b = (seq_num a = seq_num b)"
| "same_at Queue_file a b = (queue a = queue b)"
| "same_at Ciphers a b = (pair_ciphers a = pair_ciphers b)"
| "same_at Partials a b = (partials (frag_mgr a) = partials (frag_mgr b))"
| "same_at Msg_id a b = (next_msg_id (frag_mgr a) = next_msg_id (frag_mgr b))"
| "same_at Pendings a b = (pending_acks a = pending_acks b)"
| "same_at Ack_counter a b = (next_ack_seq a = next_ack_seq b)"

text \<open>What does not change while the threads run, and the log.\<close>

definition same_rest :: "node \<Rightarrow> node \<Rightarrow> bool" where
  "same_rest a b \<longleftrightarrow> net a = net b \<and> my_mac a = my_mac b \<and> base_key a = base_key b \<and> g_config a = g_config b \<and>
     net_mutex a = net_mutex b \<and> log_text a = log_text b"

subsection \<open>Locks\<close>

lemma line_locked_iff:
  assumes "net_mutex st"
  shows "run_command env line st = Inl Relock \<longleftrightarrow> main_locked (Line line)"
proof -
  obtain command rest where w: "line_words line = (command, rest)"
    by (cases "line_words line")
  obtain t m where a: "send_arguments rest = (t, m)"
    by (cases "send_arguments rest")
  show ?thesis
    using assms w a
    by (auto simp: run_command_def line_words_def [symmetric] with_lock_held send_command_def sends_def)
qed

lemma stage_locked_iff:
  assumes "net_mutex st" and "env_ok env" and "stage_ok s"
  shows "send_stage env s st = Inl Relock \<longleftrightarrow> stage_locked s"
proof (cases s)
  case (Encrypting t m r aes)
  have len: "length (encrypt_memory env) = LOCAL_BUFFER"
    using assms(2) by (simp add: env_ok_def)
  have "encrypt_payload aes (of_int (steady env)) (string_bytes m) (encrypt_memory env) \<noteq> Inl Relock"
    using len payload_codec [of "string_bytes m" "encrypt_memory env" 1007 aes "of_int (steady env)"]
      encrypt_payload_rejects [of "string_bytes m" "encrypt_memory env" aes "of_int (steady env)"]
      encrypt_payload_overflows [of "string_bytes m" "encrypt_memory env" aes "of_int (steady env)"]
    by (cases "length m \<le> 1007"; cases "length m \<le> 1024") (auto simp: LOCAL_BUFFER_def)
  then show ?thesis
    by (auto simp: Encrypting Let_def split: sum.splits prod.splits if_splits)
next
  case (Transmitting t m a ps)
  then show ?thesis
    using assms(1) by (cases ps) (simp_all add: with_lock_held)
next
  case (Queueing t ps)
  then show ?thesis
    using assms(3) by (cases ps) (auto simp: enqueue_def sendable_def Let_def split: sum.splits if_splits prod.splits)
qed (simp add: assms(1) get_pair_cipher_locked)

lemma packet_locked: "net_mutex st \<Longrightarrow> handle_packet env p st = Inl Relock"
  by (simp add: handle_packet_def lock_net_def)

subsection \<open>Writes\<close>

lemma same_at_log [simp]: "same_at v st (log_event env m st) = same_at v st st"
  by (cases v) simp_all

lemma same_at_refl [simp]: "same_at v st st"
  by (cases v) simp_all

lemma hello_writes: "v \<notin> net_writes Saying_hello \<Longrightarrow> same_at v st (send_hello env st)"
  by (cases v) (simp_all add: send_hello_def Let_def)

lemma sweep_writes: "v \<notin> net_writes Sweeping \<Longrightarrow> same_at v st (retry_sweep env st)"
proof -
  obtain ps st' where r: "retry_loop env (pending_acks st) st = (ps, st')"
    by (cases "retry_loop env (pending_acks st) st")
  then obtain lt where "st' = st \<lparr> log_text := lt \<rparr>"
    using retry_loop_state [of env "pending_acks st" st] by auto
  then show "v \<notin> net_writes Sweeping \<Longrightarrow> same_at v st (retry_sweep env st)"
    by (cases v) (simp_all add: retry_sweep_def r)
qed

lemma expire_writes: "v \<notin> net_writes Expiring \<Longrightarrow> same_at v st (cleanup_tick env st)"
  by (cases v) (simp_all add: cleanup_tick_def Let_def cleanup_stale_def)

lemma deliver_entries_mutex: "deliver_entries env es st = Inr st' \<Longrightarrow> net_mutex st' = net_mutex st"
  by (induction env es st rule: deliver_entries.induct) (auto simp: Let_def split: if_splits)

lemma auto_deliver_mutex: "auto_deliver env src st = Inr st' \<Longrightarrow> net_mutex st' = net_mutex st"
  by (auto simp: auto_deliver_def Let_def dest: deliver_entries_mutex split: if_splits)

lemma reassemble_msg_id:
  "reassemble_packet fm p now buf n ol = Inr (c, fm', buf', ol') \<Longrightarrow> next_msg_id fm' = next_msg_id fm"
  by (auto simp: reassemble_packet_def Let_def split: if_splits sum.splits option.splits prod.splits)

lemma dispatch_msg_id:
  assumes "net_mutex st" and "dispatch env p st = Inr st'"
  shows "next_msg_id (frag_mgr st') = next_msg_id (frag_mgr st)"
proof -
  have data: "next_msg_id (frag_mgr st') = next_msg_id (frag_mgr st)" if "handle_data env p st = Inr st'"
    using that assms(1)
    by (auto simp: handle_data_def get_pair_cipher_locked Let_def dest: reassemble_msg_id split: if_splits sum.splits prod.splits)
  show ?thesis
    using assms(2) data
    by (auto simp: dispatch_def handle_discovery_def handle_route_adv_def handle_ack_def Let_def
        split: if_splits sum.splits prod.splits option.splits)
qed

lemma receive_msg_id:
  assumes "receive_step env recv st = Inr st'"
  shows "next_msg_id (frag_mgr st') = next_msg_id (frag_mgr st)"
proof -
  have "next_msg_id (frag_mgr st2) = next_msg_id (frag_mgr st1)" if handled: "handle_packet env p st1 = Inr st2" for p st1 st2
  proof -
    obtain st3 st4 where st: "auto_deliver env (source (header p)) (note_neighbor env (source (header p)) (st1 \<lparr> net_mutex := True \<rparr>)) = Inr st3"
        "dispatch env p st3 = Inr st4" "st2 = unlock_net st4"
      using handled by (auto simp: handle_packet_def lock_net_def split: sum.splits if_splits)
    have "net_mutex st3"
      using auto_deliver_mutex [OF st(1)] by (simp add: note_neighbor_def Let_def)
    from dispatch_msg_id [OF this st(2)] show ?thesis
      using auto_deliver_frag [OF st(1)] st(3) by (simp add: unlock_net_def)
  qed
  then show ?thesis
    using assms by (auto simp: receive_step_def Let_def split: prod.splits if_splits)
qed

lemma receive_writes:
  assumes "node_ok st" and "env_ok env" and "\<not> net_mutex st" and "receive_step env recv st = Inr st'"
    and "v \<notin> net_writes (Receiving i)"
  shows "same_at v st st'"
proof -
  have "keeps st st'"
    using receive_step_keeps [OF assms(1-3), of recv] assms(4) by simp
  then show ?thesis
    using assms(5) receive_msg_id [OF assms(4)] by (cases v) (simp_all add: keeps_def same_identity_def)
qed

lemma line_writes:
  "is_send line = None \<Longrightarrow> run_command env line st = Inr (go_on, out_text, st') \<Longrightarrow> same_at v st st'"
  "begin_send env args st = Inr (s, st') \<Longrightarrow> same_at v st st'"
proof -
  assume "is_send line = None" "run_command env line st = Inr (go_on, out_text, st')"
  moreover obtain command rest where w: "line_words line = (command, rest)"
    by (cases "line_words line")
  moreover have "command \<noteq> ''send''"
    using w calculation(1) by (auto simp: is_send_def line_words_def split: option.splits)
  ultimately show "same_at v st st'"
    by (cases "net_mutex st") (auto simp: run_command_def line_words_def [symmetric] with_lock_held with_lock_print split: if_splits)
next
  assume "begin_send env args st = Inr (s, st')"
  then show "same_at v st st'"
    by (cases "net_mutex st") (auto simp: begin_send_def with_lock_held with_lock_print split: prod.splits if_splits)
qed

lemma fragment_message_partials:
  "fragment_message fm x ty src dst seq = (ps, fm', seq') \<Longrightarrow> partials fm' = partials fm"
  by (auto simp: fragment_message_def Let_def split: prod.splits if_splits)

lemma fragment_message_reads:
  assumes "next_msg_id fm1 = next_msg_id fm2"
  shows "fst (fragment_message fm1 x ty src dst seq) = fst (fragment_message fm2 x ty src dst seq)"
  using assms by (simp add: fragment_message_def Let_def split_beta)

lemma stage_writes:
  assumes "send_stage env s st = Inr (s', st')" and "v \<notin> stage_writes s"
  shows "same_at v st st'"
proof (cases s)
  case (Pairing t m r)
  then show ?thesis
    using assms by (cases v) (auto simp: get_pair_cipher_def lock_net_def unlock_net_def Let_def split: sum.splits option.splits if_splits)
next
  case (Encrypting t m r aes)
  then show ?thesis
    using assms by (cases v)
      (auto simp: Let_def dest!: fragment_message_partials split: sum.splits prod.splits if_splits)
next
  case (Transmitting t m a ps)
  then show ?thesis
    using assms by (cases ps; cases v) (auto simp: with_lock_def lock_net_def unlock_net_def Let_def split: sum.splits if_splits)
next
  case (Queueing t ps)
  then show ?thesis
    using assms by (cases ps; cases v) (auto split: sum.splits)
qed

subsection \<open>Reads\<close>

lemma net_op_reads:
  "same_rest a b \<Longrightarrow> same_at Seq a b \<Longrightarrow> same_at Seq (send_hello env a) (send_hello env b)"
  "same_at Pendings a b \<Longrightarrow> same_at Pendings (retry_sweep env a) (retry_sweep env b)"
  "same_rest a b \<Longrightarrow> cleanup_counter a = cleanup_counter b \<Longrightarrow> same_at Partials a b \<Longrightarrow>
    same_at Partials (cleanup_tick env a) (cleanup_tick env b)"
  using retry_loop_map [of env "pending_acks b" a] retry_loop_map [of env "pending_acks b" b]
  by (auto simp: send_hello_def retry_sweep_def cleanup_tick_def cleanup_stale_def same_rest_def Let_def split_beta)

lemma print_locked:
  assumes "net_mutex a = net_mutex b" and "f (a \<lparr> net_mutex := True \<rparr>) = f (b \<lparr> net_mutex := True \<rparr>)"
  shows "map_sum id fst (with_lock (\<lambda>st. (f st, st)) a) = map_sum id fst (with_lock (\<lambda>st. (f st, st)) b)"
  using assms by (simp add: with_lock_def lock_net_def Let_def)

lemma line_reads:
  assumes "same_rest a b" and "\<forall>v \<in> line_reads line. same_at v a b" and "is_send line = None"
  shows "map_sum id (map_prod id fst) (run_command env line a) = map_sum id (map_prod id fst) (run_command env line b)"
proof -
  obtain command rest where w: "line_words line = (command, rest)"
    by (cases "line_words line")
  have no_send: "command \<noteq> ''send''"
    using w assms(3) by (auto simp: is_send_def line_words_def split: option.splits)
  have rest: "net_mutex a = net_mutex b" "log_text a = log_text b"
    using assms(1) by (simp_all add: same_rest_def)
  have run: "map_sum id (map_prod id fst) (run_command env line st) =
      (if command = ''list'' then map_sum id (Pair True) (map_sum id fst (with_lock (\<lambda>st. (list_text st, st)) st))
       else if command = ''pending'' then map_sum id (Pair True) (map_sum id fst (with_lock (\<lambda>st. (pending_text env st, st)) st))
       else map_sum id (map_prod id fst) (run_command env line st))" for st
    using w by (simp add: run_command_def line_words_def [symmetric] sum.map_comp comp_def)
  consider "command = ''list''" | "command = ''pending''" | "command = ''table''" | "command = ''queue''"
    | "command \<noteq> ''list''" "command \<noteq> ''pending''" "command \<noteq> ''table''" "command \<noteq> ''queue''"
    by blast
  then show ?thesis
  proof cases
    case 1
    then have "list_text (a \<lparr> net_mutex := True \<rparr>) = list_text (b \<lparr> net_mutex := True \<rparr>)"
      using assms(2) w by (simp add: line_reads_def list_text_def)
    from print_locked [OF rest(1) this] 1 show ?thesis
      by (simp add: run)
  next
    case 2
    then have "pending_text env (a \<lparr> net_mutex := True \<rparr>) = pending_text env (b \<lparr> net_mutex := True \<rparr>)"
      using assms(2) w by (simp add: line_reads_def pending_text_def)
    from print_locked [OF rest(1) this] 2 show ?thesis
      by (simp add: run)
  next
    case 3
    then show ?thesis
      using assms(2) w by (simp add: run_command_def line_words_def [symmetric] line_reads_def)
  next
    case 4
    then show ?thesis
      using assms(2) w by (simp add: run_command_def line_words_def [symmetric] line_reads_def)
  next
    case 5
    then show ?thesis
      using no_send rest w
      by (simp add: run_command_def line_words_def [symmetric] status_text_def receive_text_def)
  qed
qed

lemma begin_reads:
  assumes "same_rest a b" and "same_at Neighbours a b" and "same_at Routes a b"
  shows "map_sum id fst (begin_send env args a) = map_sum id fst (begin_send env args b)"
proof -
  have "find_next_hop (my_table a) d t = find_next_hop (my_table b) d t" "known_neighbors a = known_neighbors b" for d t
    using assms(2,3) by simp_all
  then show ?thesis
    using assms(1) by (simp add: begin_send_def same_rest_def with_lock_def lock_net_def reachable_def Let_def split_beta)
qed

lemma stage_reads:
  assumes "same_rest a b" and "\<forall>v \<in> stage_reads s. same_at v a b"
  shows "map_sum id fst (send_stage env s a) = map_sum id fst (send_stage env s b)"
proof -
  have rest: "net_mutex a = net_mutex b" "my_mac a = my_mac b" "base_key a = base_key b"
    using assms(1) by (simp_all add: same_rest_def)
  show ?thesis
  proof (cases s)
    case (Pairing t m r)
    then show ?thesis
      using assms(2) rest by (simp add: get_pair_cipher_def lock_net_def Let_def split: option.splits)
  next
    case (Encrypting t m r aes)
    then have same: "seq_num a = seq_num b" "next_ack_seq a = next_ack_seq b" "next_msg_id (frag_mgr a) = next_msg_id (frag_mgr b)"
      using assms(2) by simp_all
    show ?thesis
      using fragment_message_reads [OF same(3)] same(1,2) rest(2)
      by (simp add: Encrypting Let_def split_beta split: sum.splits)
  next
    case (Transmitting t m k ps)
    then show ?thesis
      using rest by (cases ps) (simp_all add: with_lock_def lock_net_def Let_def)
  next
    case (Queueing t ps)
    then show ?thesis
      using assms(2) by (cases ps) (simp_all split: sum.splits)
  qed
qed

end
