(* ===== verification/Threads.thy ===== *)
theory Threads
  imports Races
begin

text \<open>
  The two threads of \<open>src/araba_node.cpp\<close> over one shared state: the network thread of
  \<open>network_loop\<close> and the main thread of the command loop.

  Each thread enters an operation and leaves it in two steps, so operations of the two
  overlap unless \<open>net_mutex\<close> keeps them apart: one that locks it is entered only when the
  other thread holds it nowhere.  The effect of an operation is the definition of its
  sequential model, applied when it is left.  While two operations that access the same
  data overlap, one of them writing it, the program \<open>races\<close>, and a step \<open>Race\<close> may replace the
  shared state by any other.  The network thread that locks the mutex twice keeps it and
  never goes on.
\<close>

section \<open>The program\<close>

text \<open>
  The network thread is about to execute a part of its loop, inside one, blocked on the
  mutex it holds itself, or has returned.  The main thread reads a line, is about to execute
  an operation or inside one, waits for the network thread, or has left \<open>main\<close>.
\<close>

datatype network_thread = Before net_op | Inside net_op | Relocked | Returned

datatype main_thread = Reading | Next main_op | Within main_op | Joining | Exited

record program =
  shared :: node
  network_at :: network_thread
  main_at :: main_thread
  running :: bool

text \<open>As \<open>main\<close> starts it.\<close>

definition new_program :: "node \<Rightarrow> program" where
  "new_program st = \<lparr> shared = st, network_at = Before Saying_hello, main_at = Reading, running = True \<rparr>"

text \<open>Who holds \<open>net_mutex\<close>.\<close>

definition net_holds :: "program \<Rightarrow> bool" where
  "net_holds P = (case network_at P of Inside a \<Rightarrow> net_locked a | Relocked \<Rightarrow> True | _ \<Rightarrow> False)"

definition main_holds :: "program \<Rightarrow> bool" where
  "main_holds P = (case main_at P of Within b \<Rightarrow> main_locked b | _ \<Rightarrow> False)"

definition racing :: "program \<Rightarrow> bool" where
  "racing P = (case (network_at P, main_at P) of (Inside a, Within b) \<Rightarrow> clash a b | _ \<Rightarrow> False)"

datatype event =
    Begin
  | Hello env
  | Receive env "bytes option"
  | End_receiving
  | Sweep env
  | Expire env
  | Loop_end env
  | Typed string
  | End_of_input
  | Enter
  | Command env
  | Send_stage env
  | Join
  | Race

text \<open>
  The network thread.  \<open>Begin\<close> enters the part of the loop it is at; of a pass of the receive
  loop only what follows the lock is such a part, entered for a packet of another node, and
  a pass without one is a step of its own.  What the state is when the mutex is locked
  twice is left open, except that the mutex is held.
\<close>

definition for_us :: "node \<Rightarrow> bytes option \<Rightarrow> bool" where
  "for_us st recv =
     (case receive_packet (net st) (received_packet st) recv of (ok, p) \<Rightarrow> ok \<and> source (header p) \<noteq> my_mac st)"

inductive net_step :: "program \<Rightarrow> event \<Rightarrow> program \<Rightarrow> bool" where
  begin_op: "network_at P = Before a \<Longrightarrow> a = Saying_hello \<longrightarrow> running P \<Longrightarrow> (\<forall>i. a = Receiving i \<longrightarrow> i < 10) \<Longrightarrow>
    net_locked a \<longrightarrow> \<not> main_holds P \<Longrightarrow> net_step P Begin (P \<lparr> network_at := Inside a \<rparr>)"
| hello: "network_at P = Inside Saying_hello \<Longrightarrow>
    net_step P (Hello env) (P \<lparr> shared := send_hello env (shared P), network_at := Before (Receiving 0) \<rparr>)"
| ignore: "network_at P = Before (Receiving i) \<Longrightarrow> i < 10 \<Longrightarrow> \<not> for_us (shared P) recv \<Longrightarrow>
    receive_step env recv (shared P) = Inr st \<Longrightarrow>
    net_step P (Receive env recv) (P \<lparr> shared := st, network_at := Before (Receiving (i + 1)) \<rparr>)"
| receive: "network_at P = Inside (Receiving i) \<Longrightarrow> for_us (shared P) recv \<Longrightarrow>
    receive_step env recv (shared P) = Inr st \<Longrightarrow>
    net_step P (Receive env recv) (P \<lparr> shared := st, network_at := Before (Receiving (i + 1)) \<rparr>)"
| relock: "network_at P = Inside (Receiving i) \<Longrightarrow> for_us (shared P) recv \<Longrightarrow>
    receive_step env recv (shared P) = Inl Relock \<Longrightarrow> net_mutex st \<Longrightarrow>
    net_step P (Receive env recv) (P \<lparr> shared := st, network_at := Relocked \<rparr>)"
| end_receiving: "network_at P = Before (Receiving i) \<Longrightarrow> i \<ge> 10 \<or> \<not> running P \<Longrightarrow>
    net_step P End_receiving (P \<lparr> network_at := Before Sweeping \<rparr>)"
| sweep: "network_at P = Inside Sweeping \<Longrightarrow>
    net_step P (Sweep env) (P \<lparr> shared := retry_sweep env (shared P), network_at := Before Expiring \<rparr>)"
| expire: "network_at P = Inside Expiring \<Longrightarrow>
    net_step P (Expire env) (P \<lparr> shared := cleanup_tick env (shared P), network_at := Before Saying_hello \<rparr>)"
| loop_end: "network_at P = Before Saying_hello \<Longrightarrow> \<not> running P \<Longrightarrow>
    net_step P (Loop_end env) (P \<lparr> shared := log_event env ''Network loop stopped.'' (shared P), network_at := Returned \<rparr>)"

text \<open>
  The main thread.  \<open>quit\<close> and the end of the input clear \<open>running\<close>; \<open>main\<close> then joins the
  network thread before it closes the socket.
\<close>

definition after_stage :: "stage option \<Rightarrow> main_thread" where
  "after_stage s = (case s of None \<Rightarrow> Reading | Some s \<Rightarrow> Next (Stage s))"

inductive main_step :: "program \<Rightarrow> event \<Rightarrow> program \<Rightarrow> bool" where
  typed: "main_at P = Reading \<Longrightarrow> main_step P (Typed line) (P \<lparr> main_at := Next (Line line) \<rparr>)"
| end_of_input: "main_at P = Reading \<Longrightarrow>
    main_step P End_of_input (P \<lparr> main_at := Joining, running := False \<rparr>)"
| enter: "main_at P = Next b \<Longrightarrow> main_locked b \<longrightarrow> \<not> net_holds P \<Longrightarrow>
    main_step P Enter (P \<lparr> main_at := Within b \<rparr>)"
| command: "main_at P = Within (Line line) \<Longrightarrow> is_send line = None \<Longrightarrow>
    run_command env line (shared P) = Inr (True, t, st) \<Longrightarrow>
    main_step P (Command env) (P \<lparr> shared := st, main_at := Reading \<rparr>)"
| quit: "main_at P = Within (Line line) \<Longrightarrow> is_send line = None \<Longrightarrow>
    run_command env line (shared P) = Inr (False, t, st) \<Longrightarrow>
    main_step P (Command env) (P \<lparr> shared := st, main_at := Joining, running := False \<rparr>)"
| send: "main_at P = Within (Line line) \<Longrightarrow> is_send line = Some args \<Longrightarrow>
    begin_send env args (shared P) = Inr (s, st) \<Longrightarrow>
    main_step P (Command env) (P \<lparr> shared := st, main_at := after_stage s \<rparr>)"
| stage: "main_at P = Within (Stage s) \<Longrightarrow> send_stage env s (shared P) = Inr (s', st) \<Longrightarrow>
    main_step P (Send_stage env) (P \<lparr> shared := st, main_at := after_stage s' \<rparr>)"
| join: "main_at P = Joining \<Longrightarrow> network_at P = Returned \<Longrightarrow>
    main_step P Join (P \<lparr> shared := (shared P) \<lparr> net := close_net (net (shared P)) \<rparr>, main_at := Exited \<rparr>)"

inductive step :: "program \<Rightarrow> event \<Rightarrow> program \<Rightarrow> bool" where
  network: "net_step P e Q \<Longrightarrow> step P e Q"
| main: "main_step P e Q \<Longrightarrow> step P e Q"
| race: "racing P \<Longrightarrow> step P Race (P \<lparr> shared := st \<rparr>)"

inductive steps :: "program \<Rightarrow> event list \<Rightarrow> program \<Rightarrow> bool" where
  done_steps: "steps P [] P"
| more_steps: "step P e Q \<Longrightarrow> steps Q es R \<Longrightarrow> steps P (e # es) R"

inductive_cases net_cases: "net_step P e Q"
inductive_cases main_cases: "main_step P e Q"
inductive_cases step_cases: "step P e Q"
inductive_cases receive_cases: "step P (Receive env recv) Q"
inductive_cases net_receive_cases: "net_step P (Receive env recv) Q"
inductive_cases main_receive_cases: "main_step P (Receive env recv) Q"

section \<open>The state between the steps\<close>

fun event_ok :: "event \<Rightarrow> bool" where
  "event_ok (Receive env recv) = env_ok env"
| "event_ok (Command env) = env_ok env"
| "event_ok (Send_stage env) = env_ok env"
| "event_ok e = True"

definition socket_open :: "node \<Rightarrow> bool" where
  "socket_open st \<longleftrightarrow> 0 \<le> sock_fd (net st) \<and> if_index (net st) \<noteq> 0"

text \<open>The stage the main thread is at fits.\<close>

fun main_ok :: "main_thread \<Rightarrow> bool" where
  "main_ok (Next (Stage s)) = stage_ok s"
| "main_ok (Within (Stage s)) = stage_ok s"
| "main_ok m = True"

text \<open>
  What holds of the threads in any case: only one holds the mutex, and the main thread
  leaves \<open>main\<close> after the network thread has returned.  And what holds of the shared state as
  long as nothing races: it is consistent until the network thread has locked the mutex twice.
\<close>

definition control_ok :: "program \<Rightarrow> bool" where
  "control_ok P \<longleftrightarrow> (main_at P = Exited \<longrightarrow> network_at P = Returned) \<and> \<not> (net_holds P \<and> main_holds P)"

definition data_ok :: "program \<Rightarrow> bool" where
  "data_ok P \<longleftrightarrow>
     (if network_at P = Relocked then net_mutex (shared P)
      else shared_ok (shared P) \<and> (main_at P \<noteq> Exited \<longrightarrow> socket_open (shared P)) \<and> main_ok (main_at P))"

definition program_ok :: "program \<Rightarrow> bool" where
  "program_ok P \<longleftrightarrow> control_ok P \<and> data_ok P"

lemma ready_shared: "ready env st \<longleftrightarrow> env_ok env \<and> shared_ok st \<and> socket_open st"
  by (auto simp: ready_def shared_ok_def socket_open_def)

lemma keeps_shared: "shared_ok st \<Longrightarrow> keeps st st' \<Longrightarrow> shared_ok st' \<and> net st' = net st"
  by (auto simp: shared_ok_def keeps_def same_identity_def cache_ok_def)

lemma after_stage_simps [simp]:
  "after_stage s \<noteq> Within b" "after_stage s \<noteq> Exited" "after_stage s \<noteq> Joining" "Exited \<noteq> after_stage s"
  "main_ok (after_stage s) \<longleftrightarrow> (\<forall>s'. s = Some s' \<longrightarrow> stage_ok s')"
  by (auto simp: after_stage_def split: option.splits)

lemma main_holds_simps [simp]:
  "main_holds (P \<lparr> network_at := n \<rparr>) = main_holds P" "main_holds (P \<lparr> shared := st \<rparr>) = main_holds P"
  "main_holds (P \<lparr> running := r \<rparr>) = main_holds P"
  "main_holds (P \<lparr> main_at := after_stage s \<rparr>) = False" "main_holds (P \<lparr> main_at := Reading \<rparr>) = False"
  "main_holds (P \<lparr> main_at := Joining \<rparr>) = False" "main_holds (P \<lparr> main_at := Exited \<rparr>) = False"
  "main_holds (P \<lparr> main_at := Next b \<rparr>) = False" "main_holds (P \<lparr> main_at := Within b \<rparr>) = main_locked b"
  by (simp_all add: main_holds_def after_stage_def split: option.splits)

lemma net_holds_simps [simp]:
  "net_holds (P \<lparr> main_at := m \<rparr>) = net_holds P" "net_holds (P \<lparr> shared := st \<rparr>) = net_holds P"
  "net_holds (P \<lparr> running := r \<rparr>) = net_holds P" "net_holds (P \<lparr> network_at := Inside a \<rparr>) = net_locked a"
  "net_holds (P \<lparr> network_at := Before a \<rparr>) = False" "net_holds (P \<lparr> network_at := Returned \<rparr>) = False"
  "net_holds (P \<lparr> network_at := Relocked \<rparr>) = True"
  by (simp_all add: net_holds_def)

lemma net_holds_at: "network_at P = Inside a \<Longrightarrow> net_holds P = net_locked a" "network_at P = Relocked \<Longrightarrow> net_holds P"
  by (simp_all add: net_holds_def)

lemma main_holds_at: "main_at P = Within b \<Longrightarrow> main_holds P = main_locked b"
  by (simp add: main_holds_def)

text \<open>A command other than \<open>send\<close> leaves the state as it is, or waits for a held mutex.\<close>

lemma run_command_locked:
  assumes "net_mutex st" and "is_send line = None" and "run_command env line st = Inr (go_on, out_text, st')"
  shows "st' = st"
proof -
  define command where "command = fst (case scan_word line of None \<Rightarrow> ([], []) | Some cr \<Rightarrow> cr)"
  define rest where "rest = snd (case scan_word line of None \<Rightarrow> ([], []) | Some cr \<Rightarrow> cr)"
  have split: "(case scan_word line of None \<Rightarrow> ([], []) | Some cr \<Rightarrow> cr) = (command, rest)"
    by (simp add: command_def rest_def)
  have "command \<noteq> ''send''"
    using assms(2) by (auto simp: is_send_def command_def split: option.splits if_splits)
  then show ?thesis
    using assms(3) unfolding run_command_def split
    by (auto simp: with_lock_held [OF assms(1)] split: if_splits)
qed

text \<open>What the network thread does outside the receive loop.\<close>

lemma network_part_shared:
  assumes "shared_ok st"
  shows "shared_ok (send_hello env st) \<and> net (send_hello env st) = net st"
    and "shared_ok (retry_sweep env st) \<and> net (retry_sweep env st) = net st"
    and "shared_ok (cleanup_tick env st) \<and> net (cleanup_tick env st) = net st"
    and "shared_ok (log_event env m st)"
proof -
  have st: "node_ok st"
    using assms by (simp add: shared_ok_def)
  show "shared_ok (send_hello env st) \<and> net (send_hello env st) = net st"
    using keeps_shared [OF assms send_hello_keeps [OF st]] .
  show "shared_ok (retry_sweep env st) \<and> net (retry_sweep env st) = net st"
    using keeps_shared [OF assms retry_sweep_keeps [OF st]] .
  show "shared_ok (cleanup_tick env st) \<and> net (cleanup_tick env st) = net st"
    using assms by (auto simp: shared_ok_def cache_ok_def cleanup_tick_def Let_def node_ok_def fm_ok_cleanup)
  show "shared_ok (log_event env m st)"
    using assms by (simp add: shared_ok_def cache_ok_def)
qed

lemma receive_shared:
  assumes "shared_ok st" and "env_ok env" and "receive_step env recv st = Inr st'"
  shows "shared_ok st' \<and> net st' = net st"
  using receive_step_keeps [of st env recv] keeps_shared [OF assms(1), of st'] assms by (simp add: shared_ok_def)

lemma run_command_shared:
  assumes "shared_ok st" and "socket_open st" and "env_ok env"
  shows "run_command env line st \<noteq> Inl Relock"
    and "run_command env line st = Inr (go_on, out_text, st') \<Longrightarrow> shared_ok st' \<and> socket_open st'"
  using run_command_keeps [of env st line] assms by (auto simp: ready_shared)

text \<open>The threads.\<close>

lemma step_control:
  assumes "step P e Q" and "control_ok P"
  shows "control_ok Q"
  using assms
  by (elim step_cases net_cases main_cases)
    (auto simp: control_ok_def net_holds_at main_holds_at)

text \<open>The shared state, in a step of one thread.\<close>

lemma net_step_data:
  assumes "net_step P e Q" and "control_ok P" and "data_ok P" and "event_ok e"
  shows "data_ok Q"
proof -
  have ok: "shared_ok (shared P)" "main_at P \<noteq> Exited \<longrightarrow> socket_open (shared P)" "main_ok (main_at P)" if "network_at P \<noteq> Relocked"
    using assms(3) that by (simp_all add: data_ok_def)
  show ?thesis
    using assms(1)
  proof (cases rule: net_step.cases)
    case (hello env)
    then show ?thesis
      using ok network_part_shared(1) [of "shared P" env] by (simp add: data_ok_def socket_open_def)
  next
    case (ignore i recv env st)
    then show ?thesis
      using ok assms(4) receive_shared [of "shared P" env recv st] by (simp add: data_ok_def socket_open_def)
  next
    case (receive i recv env st)
    then show ?thesis
      using ok assms(4) receive_shared [of "shared P" env recv st] by (simp add: data_ok_def socket_open_def)
  next
    case (sweep env)
    then show ?thesis
      using ok network_part_shared(2) [of "shared P" env] by (simp add: data_ok_def socket_open_def)
  next
    case (expire env)
    then show ?thesis
      using ok network_part_shared(3) [of "shared P" env] by (simp add: data_ok_def socket_open_def)
  next
    case (loop_end env)
    then show ?thesis
      using ok network_part_shared(4) [of "shared P" env] by (simp add: data_ok_def socket_open_def)
  qed (use ok in \<open>simp_all add: data_ok_def\<close>)
qed

lemma main_step_data:
  assumes "main_step P e Q" and "control_ok P" and "data_ok P" and "event_ok e"
  shows "data_ok Q"
proof (cases "network_at P = Relocked")
  case True
  then have held: "net_mutex (shared P)" "network_at Q = Relocked"
    using assms(1,3) by (auto simp: data_ok_def elim: main_cases)
  have "net_mutex (shared Q)"
    using assms(1) held(1) True
    by (elim main_cases) (auto dest: run_command_locked begin_send_held send_stage_held simp: quiet_def)
  then show ?thesis
    using held(2) by (simp add: data_ok_def)
next
  case False
  then have ok: "shared_ok (shared P)" "main_at P \<noteq> Exited \<longrightarrow> socket_open (shared P)" "main_ok (main_at P)"
    using assms(3) by (simp_all add: data_ok_def)
  show ?thesis
    using assms(1)
  proof (cases rule: main_step.cases)
    case (command line env t st)
    then show ?thesis
      using ok False assms(4) run_command_shared(2) [of "shared P" env line True t st] by (simp add: data_ok_def)
  next
    case (quit line env t st)
    then show ?thesis
      using ok False assms(4) run_command_shared(2) [of "shared P" env line False t st] by (simp add: data_ok_def)
  next
    case (send line args env s st)
    then show ?thesis
      using ok False begin_send_free [of "shared P" env args] by (auto simp: data_ok_def)
  next
    case (stage s env s' st)
    then have "shared_ok st" "socket_open st" "\<forall>s''. s' = Some s'' \<longrightarrow> stage_ok s''"
      using ok assms(4) send_stage_keeps [of "shared P" env s] by (auto simp: stage_result_def socket_open_def)
    then show ?thesis
      using stage False by (simp add: data_ok_def)
  next
    case join
    then show ?thesis
      using ok by (simp add: data_ok_def shared_ok_def node_ok_def cache_ok_def)
  next
    case (enter b)
    then show ?thesis
      using ok False by (cases b) (simp_all add: data_ok_def)
  qed (use ok False in \<open>simp_all add: data_ok_def\<close>)
qed

lemma racing_unguarded:
  assumes "racing P" and "control_ok P"
  shows "\<exists>a b. network_at P = Inside a \<and> main_at P = Within b \<and> unguarded a b"
  using assms by (auto simp: racing_def control_ok_def unguarded_iff net_holds_def main_holds_def
      split: network_thread.splits main_thread.splits)

lemma step_data: "step P e Q \<Longrightarrow> \<not> racing P \<Longrightarrow> control_ok P \<Longrightarrow> data_ok P \<Longrightarrow> event_ok e \<Longrightarrow> data_ok Q"
  by (auto elim!: step_cases intro: net_step_data main_step_data)

text \<open>An execution keeps the state, or two operations have overlapped on the way.\<close>

definition overlapped :: "program \<Rightarrow> event list \<Rightarrow> program \<Rightarrow> bool" where
  "overlapped P es Q \<longleftrightarrow> (\<exists>es1 es2 R a b. es = es1 @ es2 \<and> steps P es1 R \<and> steps R es2 Q \<and>
     network_at R = Inside a \<and> main_at R = Within b \<and> unguarded a b)"

lemma steps_snoc: "steps P es Q \<Longrightarrow> step Q e R \<Longrightarrow> steps P (es @ [e]) R"
  by (induction rule: steps.induct) (auto intro: steps.intros)

lemma overlapped_step:
  assumes "step P e Q" and "overlapped Q es R"
  shows "overlapped P (e # es) R"
proof -
  obtain es1 es2 S a b where o: "es = es1 @ es2" "steps Q es1 S" "steps S es2 R"
      "network_at S = Inside a" "main_at S = Within b" "unguarded a b"
    using assms(2) unfolding overlapped_def by blast
  have "steps P (e # es1) S"
    by (rule more_steps [OF assms(1) o(2)])
  then show ?thesis
    unfolding overlapped_def using o
    by (intro exI [of _ "e # es1"] exI [of _ es2] exI [of _ S] exI [of _ a] exI [of _ b]) simp
qed

lemma steps_control: "steps P es Q \<Longrightarrow> control_ok P \<Longrightarrow> control_ok Q"
  by (induction rule: steps.induct) (auto intro: step_control)

lemma steps_keep:
  "steps P es Q \<Longrightarrow> control_ok P \<Longrightarrow> data_ok P \<Longrightarrow> \<forall>e \<in> set es. event_ok e \<Longrightarrow>
    control_ok Q \<and> (data_ok Q \<or> overlapped P es Q)"
proof (induction rule: steps.induct)
  case (done_steps P)
  then show ?case by simp
next
  case (more_steps P e Q es R)
  show ?case
  proof (cases "racing P")
    case True
    then obtain a b where "network_at P = Inside a" "main_at P = Within b" "unguarded a b"
      using racing_unguarded more_steps.prems(1) by blast
    then have "overlapped P (e # es) R"
      unfolding overlapped_def using more_steps.hyps
      by (intro exI [of _ "[]"] exI [of _ "e # es"] exI [of _ P]) (auto intro: steps.intros)
    moreover have "control_ok R"
      using steps_control [OF more_steps.hyps(2)] step_control [OF more_steps.hyps(1)] more_steps.prems(1) by blast
    ultimately show ?thesis by blast
  next
    case False
    then have "control_ok Q" "data_ok Q"
      using step_control step_data more_steps.hyps(1) more_steps.prems by auto
    then have "control_ok R \<and> (data_ok R \<or> overlapped Q es R)"
      using more_steps.IH more_steps.prems(3) by simp
    then show ?thesis
      using overlapped_step [OF more_steps.hyps(1)] by blast
  qed
qed

section \<open>After the double lock\<close>

definition stuck :: "program \<Rightarrow> node \<Rightarrow> bool" where
  "stuck P st \<longleftrightarrow> network_at P = Relocked \<and> main_at P \<noteq> Exited \<and> quiet st (shared P)"

lemma step_stuck:
  assumes "step P e Q" and "stuck P st"
  shows "stuck Q st"
proof -
  have held: "net_mutex (shared P)" "\<not> racing P"
    using assms(2) by (simp_all add: stuck_def quiet_def racing_def)
  show ?thesis
    using assms held
    by (elim step_cases net_cases main_cases)
      (auto simp: stuck_def dest: run_command_locked begin_send_held intro: quiet_trans [OF _ send_stage_held])
qed

lemma steps_stuck: "steps P es Q \<Longrightarrow> stuck P st \<Longrightarrow> stuck Q st"
  by (induction rule: steps.induct) (auto intro: step_stuck)

text \<open>The step in which a packet locks the mutex twice.\<close>

lemma relock_step:
  assumes "program_ok P" and "env_ok env"
    and "receive_packet (net (shared P)) (received_packet (shared P)) recv = (True, p)"
    and "source (header p) \<noteq> my_mac (shared P)" and "ptype (header p) = DATA" and "\<not> is_fragment p"
    and "step P (Receive env recv) P'"
  shows "network_at P' = Relocked \<and> net_mutex (shared P') \<and> main_at P' = main_at P"
proof -
  have n: "net_step P (Receive env recv) P'"
    using assms(7) by (auto elim: receive_cases main_receive_cases)
  then have "network_at P \<noteq> Relocked"
    by (auto elim: net_receive_cases)
  then have "node_ok (shared P)" "\<not> net_mutex (shared P)"
    using assms(1) by (simp_all add: program_ok_def data_ok_def shared_ok_def)
  then have "receive_step env recv (shared P) = Inl Relock"
    using data_step [of "shared P" env recv p] assms(2-6) by simp
  then show ?thesis
    using n by (auto elim!: net_receive_cases)
qed

section \<open>Properties\<close>

text \<open>
  C2: Data races are all that can spoil the shared state.  In every execution of the two
  threads, at most one of them holds \<open>net_mutex\<close>, and the main thread leaves \<open>main\<close> only
  after the network thread has returned.  The state is consistent as long as the network
  thread has not locked the mutex twice: tables, queue file, fragments, pending messages and
  the cipher cache are well formed, unless on the way two operations have overlapped that
  no lock keeps apart: saying hello and encrypting (\<open>seq_num\<close>); handling a packet and
  \<open>table\<close>, \<open>queue\<close>, encrypting or queueing; the sweep and \<open>pending\<close> or entering a message as
  pending.  Every other pair is guarded by the mutex or shares nothing.
\<close>
theorem threads_keep_state:
  assumes "program_ok P" and "steps P es Q" and "\<forall>e \<in> set es. event_ok e"
  shows "\<not> (net_holds Q \<and> main_holds Q) \<and> (main_at Q = Exited \<longrightarrow> network_at Q = Returned) \<and>
    ((if network_at Q = Relocked then net_mutex (shared Q)
      else node_ok (shared Q) \<and> cache_ok (shared Q) \<and> \<not> net_mutex (shared Q)) \<or>
     (\<exists>es1 es2 R a b. es = es1 @ es2 \<and> steps P es1 R \<and> steps R es2 Q \<and>
       network_at R = Inside a \<and> main_at R = Within b \<and> unguarded a b))"
  using steps_keep [OF assms(2) _ _ assms(3)] assms(1)
  by (auto simp: program_ok_def control_ok_def data_ok_def shared_ok_def overlapped_def)

lemma new_program_ok: "ready env st \<Longrightarrow> program_ok (new_program st)"
  by (simp add: new_program_def program_ok_def control_ok_def data_ok_def net_holds_def ready_shared)




lemma network_alone:
  "steps P es Q \<Longrightarrow> \<forall>e \<in> set es. e = Begin \<or> e = Hello env \<Longrightarrow> main_at P = Reading \<Longrightarrow> main_at Q = Reading"
  by (induction rule: steps.induct) (auto elim!: step_cases net_cases main_cases simp: racing_def)

lemma first_hello:
  "steps (new_program st) [Begin, Hello env]
    ((new_program st) \<lparr> shared := send_hello env st, network_at := Before (Receiving 0) \<rparr>)"
proof -
  let ?P = "new_program st"
  have "step ?P Begin (?P \<lparr> network_at := Inside Saying_hello \<rparr>)"
    by (intro network begin_op) (simp_all add: new_program_def)
  moreover have "step (?P \<lparr> network_at := Inside Saying_hello \<rparr>) (Hello env)
      (?P \<lparr> shared := send_hello env st, network_at := Before (Receiving 0) \<rparr>)"
    using network [OF hello [of "?P \<lparr> network_at := Inside Saying_hello \<rparr>" env]] by (simp add: new_program_def)
  ultimately show ?thesis
    by (intro more_steps [OF _ more_steps [OF _ done_steps]])
qed

theorem threads_keep_state_witness:
  "\<exists>Q. steps (new_program friend) [Begin, Hello some_env] Q \<and> node_ok (shared Q) \<and> cache_ok (shared Q) \<and> \<not> net_mutex (shared Q)"
proof -
  let ?es = "[Begin, Hello some_env]"
  let ?Q = "(new_program friend) \<lparr> shared := send_hello some_env friend, network_at := Before (Receiving 0) \<rparr>"
  have run: "steps (new_program friend) ?es ?Q"
    by (rule first_hello)
  have alone: "main_at R = Reading" if "steps (new_program friend) es1 R" "?es = es1 @ es2" for es1 es2 R
  proof -
    have "set es1 \<subseteq> set ?es"
      using that(2) by (metis Un_upper1 set_append)
    then show ?thesis
      using network_alone [OF that(1)] by (auto simp: new_program_def)
  qed
  have "\<forall>e \<in> set ?es. event_ok e"
    by simp
  from threads_keep_state [OF new_program_ok [OF ready_friend] run this] alone run show ?thesis
    by (intro exI [of _ ?Q]) (auto simp: new_program_def)
qed



text \<open>
  C6: One \<open>DATA\<close> packet that is not a fragment, from any other address, stops the node for
  good: once the network thread has received it, whatever the main thread does, nothing is
  received, logged or sent again, no message is entered as pending, every \<open>send\<close> with an
  address and a message waits for the mutex for ever, and the program never ends, \<open>quit\<close>
  included.
\<close>
theorem data_packet_stops_node:
  assumes "program_ok P" and "event_ok (Receive env recv)"
    and "receive_packet (net (shared P)) (received_packet (shared P)) recv = (True, p)"
    and "source (header p) \<noteq> my_mac (shared P)" and "ptype (header p) = DATA" and "\<not> is_fragment p"
    and "main_at P \<noteq> Exited" and "step P (Receive env recv) P'" and "steps P' es Q"
  shows "network_at Q = Relocked \<and> main_at Q \<noteq> Exited \<and> net_mutex (shared Q) \<and>
    sent_frames (shared Q) = sent_frames (shared P') \<and> log_text (shared Q) = log_text (shared P') \<and>
    pending_acks (shared Q) = pending_acks (shared P') \<and>
    (\<forall>env' args target message. send_arguments args = (target, message) \<longrightarrow> target \<noteq> [] \<longrightarrow> message \<noteq> [] \<longrightarrow>
       begin_send env' args (shared Q) = Inl Relock)"
proof -
  have "env_ok env"
    using assms(2) by simp
  from relock_step [OF assms(1) this assms(3-6,8)] have "stuck P' (shared P')"
    using assms(7) by (simp add: stuck_def quiet_refl)
  from steps_stuck [OF assms(9) this] show ?thesis
    by (auto simp: stuck_def quiet_def begin_send_def with_lock_held)
qed

theorem data_packet_stops_node_witness:
  "\<exists>P P'. steps (new_program (started_node (replicate 6 7))) [Begin, Hello some_env, Begin] P \<and>
    step P (Receive some_env (Some (replicate 14 0 @ packet_bytes (init DATA (replicate 6 1) (replicate 6 7) 9)))) P' \<and>
    (\<forall>es Q. steps P' es Q \<longrightarrow> network_at Q = Relocked \<and> main_at Q \<noteq> Exited)"
proof -
  let ?st = "started_node (replicate 6 7)" and ?p = "init DATA (replicate 6 1) (replicate 6 7) 9"
  let ?recv = "Some (replicate 14 0 @ packet_bytes ?p)" and ?h = "send_hello some_env (started_node (replicate 6 7))"
  let ?P1 = "(new_program ?st) \<lparr> shared := ?h, network_at := Before (Receiving 0) \<rparr>"
  let ?P = "?P1 \<lparr> network_at := Inside (Receiving 0) \<rparr>"
  have ready: "ready some_env ?st"
    by (rule ready_started) simp
  then have h: "shared_ok ?h" "net ?h = net ?st" "socket_open ?h"
    using network_part_shared(1) [of ?st some_env] by (simp_all add: ready_shared socket_open_def)
  then have st: "node_ok ?h" "\<not> net_mutex ?h" "0 \<le> sock_fd (net ?h)" "wf_packet (received_packet ?h)" "env_ok some_env"
    using some_env_ok by (simp_all add: shared_ok_def socket_open_def node_ok_def)
  have P: "program_ok ?P" "shared ?P = ?h" "main_at ?P \<noteq> Exited"
    using h by (simp_all add: program_ok_def control_ok_def data_ok_def new_program_def main_holds_def)
  have "step ?P1 Begin ?P"
    by (intro network begin_op) (simp_all add: new_program_def main_holds_def)
  from steps_snoc [OF first_hello this] have run: "steps (new_program ?st) [Begin, Hello some_env, Begin] ?P"
    by simp
  have p: "wf_packet ?p" "unat (payload_len (header ?p)) \<le> MAX_PAYLOAD_SIZE" "length (replicate 14 (0 :: u8)) = 14"
    by simp_all
  let ?r = "?p \<lparr> payload := overwrite (payload (received_packet ?h)) 0 (payload_bytes ?p) \<rparr>"
  have r: "receive_packet (net ?h) (received_packet ?h) ?recv = (True, ?r)"
    by (rule receive_framed [OF p(1) st(4) p(2,3) st(3)])
  have my: "source (header ?r) \<noteq> my_mac ?h" "ptype (header ?r) = DATA" "\<not> is_fragment ?r"
    by (simp_all add: send_hello_def Let_def started_node_def is_fragment_iff)
  have "receive_step some_env ?recv ?h = Inl Relock"
    using data_step [OF st(1,5,2) r my(1,2)] my(3) by simp
  then have s: "step ?P (Receive some_env ?recv) (?P \<lparr> shared := ?h \<lparr> net_mutex := True \<rparr>, network_at := Relocked \<rparr>)"
    using r my(1) by (intro network relock [of _ 0]) (simp_all add: for_us_def)
  have "event_ok (Receive some_env ?recv)"
    using st(5) by simp
  from data_packet_stops_node [OF P(1) this, unfolded P(2), OF r my P(3) s] show ?thesis
    using run s by blast
qed

end
