(* ===== verification/Spec2Isabelle.thy ===== *)
theory Spec2Isabelle
  imports Aes_Vector Startup Exchange Threads
begin

text \<open>
  ARABA is a mesh messenger over raw Ethernet sockets.  A node (\<open>src/src/araba_node.cpp\<close>)
  runs two threads over shared state: the network thread says hello, receives packets,
  answers, delivers what was queued and reads messages; the main thread reads commands from
  the terminal and sends messages.  They use a fragment manager, AES in CBC mode, a routing
  table, a message queue in a file, a raw socket and a configuration file, each a class or a
  group of functions of its own under \<open>src/include\<close> and \<open>src/src\<close>.

  \<^bold>\<open>Theories and code.\<close>
  \<^item> \<open>Prelude\<close>: byte buffers (\<open>overwrite\<close> is \<open>memcpy\<close> into a buffer), little-endian object
    representations, the \<open>fault\<close> type.  \<open>Cxx_Text\<close>: the text operations of the C++ library
    the code uses (hex and decimal output, stream extraction, lines, \<open>stoul\<close>).  \<open>Std_Map\<close>:
    \<open>std::map\<close> as an ordered association list.
  \<^item> \<open>Packet\<close> (\<open>packet.hpp\<close>): \<open>PacketHeader\<close>, \<open>Packet\<close> with \<open>init\<close> and \<open>isValid\<close>, the packed
    layout, the text form of an address.
  \<^item> \<open>Galois\<close>, \<open>Aes\<close>, \<open>Aes_Vector\<close>, \<open>Cbc\<close>, \<open>Keys\<close> (\<open>crypto.cpp\<close>): \<open>gmul\<close> and its algebra; the key
    expansion and the block functions of \<open>AES256\<close>; their value on the FIPS-197 vector; CBC
    mode; \<open>derive_key\<close>, \<open>derive_pair_key\<close>, \<open>generate_iv\<close>.
  \<^item> \<open>Payload\<close> (\<open>araba_node.cpp\<close>): \<open>pad_data\<close>, \<open>unpad_data\<close>, \<open>encrypt_payload\<close>, \<open>decrypt_payload\<close>.
  \<^item> \<open>Fragment\<close> (\<open>fragment.cpp\<close>): \<open>fragment_message\<close>, \<open>reassemble_packet\<close>, \<open>cleanup_stale\<close>.
  \<^item> \<open>Routing\<close> (\<open>routing.cpp\<close>): the table; \<open>Adverts\<close> (\<open>araba_node.cpp\<close>): \<open>pack_routes\<close>,
    \<open>unpack_routes\<close>.
  \<^item> \<open>Persistence\<close> (\<open>persistence.cpp\<close>): \<open>RueQueue\<close> over the bytes of its file.
  \<^item> \<open>Network\<close> (\<open>network.cpp\<close>): the raw socket; \<open>Config\<close> (\<open>config.cpp\<close>): the configuration file.
  \<^item> \<open>Node\<close> (\<open>araba_node.cpp\<close>): the record \<open>node\<close> of the globals and of the locals of \<open>main\<close> both
    threads use, the helpers of both threads, and the body of the receive loop, one
    definition per branch, composed as \<open>receive_step\<close>.  \<open>Loop\<close>: the rest of \<open>network_loop\<close>.
    \<open>Commands\<close>: the start of \<open>main\<close>, every command, the command loop.  \<open>Stages\<close>: \<open>send\<close> cut at
    its critical sections.  \<open>Races\<close>: which shared data each operation reads and writes and
    whether it holds \<open>net_mutex\<close>.  \<open>Threads\<close>: the interleavings of the two threads, whose
    operations are entered and left, the waiting for \<open>net_mutex\<close>, the data races and the end
    of the program.
  \<^item> \<open>Handler\<close>, \<open>Sending\<close>, \<open>Startup\<close>, \<open>Delivery\<close>, \<open>Exchange\<close>: what the operations of the node
    keep true and do, up to what one node reads from another.

  \<^bold>\<open>Interfaces.\<close>  The locales \<open>finite_map\<close>, \<open>block_cipher\<close>, \<open>padding\<close> and \<open>sealed_text\<close> (CBC over
  padded text), \<open>route_store\<close> (a table that keeps the best offers) and \<open>mailbox\<close> (a queue with
  delivery) state what a client relies on; each is interpreted on the definitions of
  the code in the theory that provides them, and the properties of the clients rest on the
  facts of the interpretation.

  \<^bold>\<open>What is shown.\<close>  This theory: a message typed on one node can be read back from the
  packets handed to the socket by whoever has the passphrase; what is queued is handed over
  once when the node is heard, whether or not the kernel accepts it; packets of a discovery
  that reach the handlers make two nodes learn each other's neighbours; and an
  acknowledgement clears a pending message only by chance.  \<open>Threads\<close>: the state stays
  consistent under every interleaving unless operations overlap that no lock keeps apart,
  which operations these are, and that a single \<open>DATA\<close> packet ends it all, because the
  handler locks \<open>net_mutex\<close> twice.
  \<open>Handler\<close>, \<open>Loop\<close>, \<open>Sending\<close>, \<open>Startup\<close>: invariants and faults of the receive step, the
  network loop, sessions of commands and the start.  The component theories: round trips
  (CBC, blocks, payloads, packets, addresses, advertisements, configuration), the key
  expansion against the FIPS-197 recursion, reassembly in any order, the queue file as a
  refinement of a list, shortest routes, descriptors, and the bounds of every buffer.

  \<^bold>\<open>How the code is read.\<close>
  \<^item> The target is x86-64 with libstdc++: bytes are \<open>u8\<close>, integers keep their width, objects
    are stored little endian, \<open>size_t\<close> is a natural number (no object of the program comes
    near its bound).
  \<^item> A write or read outside an array, a division by zero, an uncaught exception and a second
    lock of a held mutex are the value \<open>Inl\<close> of a \<open>fault\<close>; nothing is claimed of what happens
    afterwards.
  \<^item> The contents of an uninitialised array or variable is an argument: the field of \<open>env\<close> of
    that name in the node, \<open>junk\<close> elsewhere.  \<open>Packet received\<close> is declared in each iteration;
    the memory it reuses is the field \<open>received_packet\<close>.
  \<^item> The round keys are the flat array of 240 bytes of the class.
  \<^item> A clock reading, the answers of the kernel to the socket calls and the frames it delivers
    are arguments; the clocks do not tick within one operation.  \<open>sent_frames\<close> lists the calls
    of \<open>sendto\<close> a node makes, each with the kernel's answer in \<open>accepted\<close>; the code ignores that
    answer.  Packets leave without an Ethernet header and are read as if they had one
    (\<open>Network\<close>), so a property that speaks of a packet that reaches a handler intact says so:
    it \<open>carries\<close> the one that was sent.  The log file is its text, and appending to it succeeds.
  \<^item> The theories of single components and operations describe one thread.  In \<open>Threads\<close> an
    operation is entered and left: saying hello, handling a packet, the sweep, the expiry, a
    command or a stage of \<open>send\<close>.  Those that lock \<open>net_mutex\<close> exclude each other; the others
    overlap freely, and while two that access the same data overlap, one of them writing it,
    the shared state may become anything.  Memory is sequentially consistent.  \<open>running\<close>, a
    plain \<open>bool\<close> in the code, is taken for an atomic flag.
  \<^item> Every loop is bounded by its data and is a structural recursion or has a termination
    proof; \<open>network_loop\<close> and the command loop are given the list of their iterations, so no
    fuel is used.

  \<^bold>\<open>Not modelled.\<close>  The class \<open>Router\<close> is declared in \<open>routing.hpp\<close> and defined nowhere.  What
  \<open>main\<close> and the socket print on the way besides the output of the commands, the sleeps, and
  the internals of the operating system (partial writes, interrupted calls) are left out, as
  are the test programs.
\<close>

section \<open>From the command to the reader\<close>

text \<open>
  C1: What \<open>send\<close> hands to the socket holds the message for whoever has the passphrase.  For
  a reachable destination and a message of at most 1007 characters, \<open>send\<close> hands its packets
  to \<open>sendto\<close> once each, in order.  From any packets that carry these (same type,
  addresses and declared payload) a receiver with the destination's
  address and the same base key gets back exactly the message: from one packet by
  \<open>decrypt_payload\<close> on its payload, from several, each recognised as a fragment, by
  \<open>reassemble_packet\<close>, in whatever order, with repetitions and between fragments of other
  message ids, and \<open>decrypt_payload\<close> on its result.  These are the calls of the receive loop;
  the loop itself never gets as far, because it locks the mutex twice before the decryption.
\<close>
theorem message_decodes:
  assumes "ready env st" and "send_arguments args = (target, message)" and "target \<noteq> []" and "message \<noteq> []"
    and "length message \<le> 1007" and "dst = string_to_mac target" and "reachable env target dst st"
    and "message_cipher env st dst message = Inr enc" and "list_all2 carries (message_packets st dst enc) rs"
    and "length mem = 240" and "rk = key_expansion mem (derive_pair_key dst (my_mac st) (base_key st))"
  shows "(\<exists>txt st'. send_command env args st = Inr (txt, st') \<and>
      sent_frames st' = sent_frames st @ map (frame_to env st dst) (message_packets st dst enc)) \<and>
    (if length message \<le> 463
     then \<exists>r. rs = [r] \<and>
       decrypt_payload rk stack (payload r) (unat (payload_len (header r))) 1024 = Inr (string_bytes message)
     else (\<forall>r \<in> set rs. is_fragment r) \<and>
       (\<forall>xs l rm buf. own_indices xs = {..<length rs} - {l} \<longrightarrow> l < length rs \<longrightarrow>
         (\<forall>p. Inr p \<in> fst ` set xs \<longrightarrow> foreign (next_msg_id (frag_mgr st)) p) \<longrightarrow>
         fm_ok rm \<longrightarrow> m_find (partials rm) (next_msg_id (frag_mgr st)) = None \<longrightarrow> 2048 \<le> length buf \<longrightarrow>
         (\<exists>flags rm1 rm2 out. receive_all rm (traffic rs xs) buf 2048 = Inr (flags, rm1) \<and>
           reassemble_packet rm1 (rs ! l) now buf 2048 0 = Inr (True, rm2, out, length enc) \<and>
           decrypt_payload rk stack out (length enc) 2048 = Inr (string_bytes message))))"
proof (rule conjI)
  obtain t st' enc' where s: "send_command env args st = Inr (t, st')" "message_cipher env st dst message = Inr enc'"
      "sent_frames st' = sent_frames st @ map (\<lambda>p. \<lparr> out_index = if_index (net st), out_addr = dst,
        out_bytes = packet_bytes p, accepted = (0 \<le> sendto_result env p) \<rparr>) (message_packets st dst enc')"
    using send_reachable [OF assms(1-7)] by blast
  then show "\<exists>txt st'. send_command env args st = Inr (txt, st') \<and>
      sent_frames st' = sent_frames st @ map (frame_to env st dst) (message_packets st dst enc)"
    using assms(8) by (auto simp: frame_to_def [abs_def])
  have dst: "length dst = 6"
    by (simp add: assms(6))
  have rk: "rk = pair_schedule dst (my_mac st) (base_key st)"
    by (simp add: assms(11) pair_schedule_def key_expansion_eq assms(10))
  show "if length message \<le> 463
     then \<exists>r. rs = [r] \<and>
       decrypt_payload rk stack (payload r) (unat (payload_len (header r))) 1024 = Inr (string_bytes message)
     else (\<forall>r \<in> set rs. is_fragment r) \<and>
       (\<forall>xs l rm buf. own_indices xs = {..<length rs} - {l} \<longrightarrow> l < length rs \<longrightarrow>
         (\<forall>p. Inr p \<in> fst ` set xs \<longrightarrow> foreign (next_msg_id (frag_mgr st)) p) \<longrightarrow>
         fm_ok rm \<longrightarrow> m_find (partials rm) (next_msg_id (frag_mgr st)) = None \<longrightarrow> 2048 \<le> length buf \<longrightarrow>
         (\<exists>flags rm1 rm2 out. receive_all rm (traffic rs xs) buf 2048 = Inr (flags, rm1) \<and>
           reassemble_packet rm1 (rs ! l) now buf 2048 0 = Inr (True, rm2, out, length enc) \<and>
           decrypt_payload rk stack out (length enc) 2048 = Inr (string_bytes message)))"
  proof (cases "length message \<le> 463")
    case True
    then show ?thesis
      using decode_short [OF assms(1) dst True assms(8,9) rk] by (simp only: if_True)
  next
    case False
    then have long: "463 < length message"
      by simp
    show ?thesis
      unfolding if_not_P [OF False]
    proof (rule conjI)
      show "\<forall>r \<in> set rs. is_fragment r"
        by (rule message_fragments(3) [OF assms(1) dst long assms(5,8,9)])
    qed (use decode_long [OF assms(1) dst long assms(5,8,9) rk] in blast)
  qed
qed

theorem message_decodes_witness:
  "\<exists>txt st' enc rs rm1 rm2 out. send_command some_env long_line friend = Inr (txt, st') \<and>
    sent_frames st' = map (frame_to some_env friend (replicate 6 1)) (message_packets friend (replicate 6 1) enc) \<and>
    list_all2 carries (message_packets friend (replicate 6 1) enc) rs \<and>
    reassemble_packet rm1 (rs ! 0) 0 (replicate 2048 0) 2048 0 = Inr (True, rm2, out, length enc) \<and>
    decrypt_payload (key_expansion (replicate 240 0) (derive_pair_key (replicate 6 1) (my_mac friend) (base_key friend)))
      (replicate 1024 0) out (length enc) 2048 = Inr (string_bytes long_text)"
proof -
  have rm: "fm_ok new_fragment_manager" "m_find (partials new_fragment_manager) (next_msg_id (frag_mgr friend)) = None"
      "2048 \<le> length (replicate 2048 (0 :: u8))" "length (replicate 240 (0 :: u8)) = 240"
    by (simp_all add: new_fragment_manager_def fm_ok_def m_ok_def)
  obtain enc where enc: "message_cipher some_env friend (string_to_mac one_target) long_text = Inr enc" "32 \<le> length enc" "length enc \<le> 1024"
    using message_cipher_fits [OF some_env_ok long_text(2)] by blast
  let ?rs = "message_packets friend (string_to_mac one_target) enc"
  have dst: "length (string_to_mac one_target) = 6"
    by (simp add: one_target(1))
  have rs: "list_all2 carries ?rs ?rs"
    using message_packets_spec [OF ready_friend dst enc(3)]
    by (intro list.rel_refl_strong) (auto simp: carries_def sendable_def)
  have "0 < length ?rs"
    by (rule message_packets_nonempty [OF _ enc(3)]) (use enc(2) in linarith)
  moreover have "own_indices (map (\<lambda>k. (Inl k, 0)) [1..<length ?rs]) = {..<length ?rs} - {0}"
    by (auto simp: own_indices_def image_image)
  moreover have "\<forall>p. Inr p \<in> fst ` set (map (\<lambda>k. (Inl k, 0 :: int)) [1..<length ?rs]) \<longrightarrow> foreign (next_msg_id (frag_mgr friend)) p"
    by auto
  ultimately show ?thesis
    using message_decodes [OF ready_friend long_line one_target(3) long_text(1,2) refl reachable_friend enc(1) rs rm(4) refl,
        of "replicate 1024 0" 0] rm(1-3) long_text(3) rs
    unfolding one_target(1) friend_fields(3) append_Nil by (simp only: not_le [symmetric] if_False) blast
qed

text \<open>
  C4: What \<open>send\<close> queues for a node that is away is handed to the socket when a packet of
  that node is heard: each queued packet once, in order, to the node's address, with the
  payload it was queued with and a new sequence number.  Nothing stays queued for the node
  and what was queued for others stays.  The result of \<open>sendto\<close> has no influence: a packet
  the kernel refuses leaves the queue all the same, so when all are refused the message is
  neither queued any more nor sent.
\<close>
theorem queued_message_sent_once:
  assumes "ready env st" and "send_arguments args = (target, message)" and "target \<noteq> []" and "message \<noteq> []"
    and "length message \<le> 1007" and "dst = string_to_mac target" and "\<not> reachable env target dst st"
    and "stores (queue st) es" and "\<forall>e \<in> set es. dest_mac e \<noteq> dst"
  shows "\<exists>txt st' enc st'' ps. send_command env args st = Inr (txt, st') \<and> message_cipher env st dst message = Inr enc \<and>
    sent_frames st' = sent_frames st \<and> auto_deliver env' dst st' = Inr st'' \<and> stores (queue st'') es \<and>
    list_all2 carries (message_packets st dst enc) ps \<and>
    sent_frames st'' = sent_frames st @ map (\<lambda>p. \<lparr> out_index = if_index (net st), out_addr = dst,
      out_bytes = packet_bytes p, accepted = (0 \<le> sendto_result env' p) \<rparr>) ps \<and>
    ((\<forall>p. sendto_result env' p < 0) \<longrightarrow> filter accepted (sent_frames st'') = filter accepted (sent_frames st))"
proof -
  obtain t st' enc where s: "send_command env args st = Inr (t, st')" "message_cipher env st dst message = Inr enc"
      "stores (queue st') (es @ map (\<lambda>p. queued dst (payload_bytes p) (time_now env)) (message_packets st dst enc))"
      "sent_frames st' = sent_frames st" "ready env st'" "net st' = net st" "my_mac st' = my_mac st"
    using send_unreachable [OF assms(1-8)] by (elim exE conjE) blast
  have dst: "length dst = 6" "env_ok env" "length (my_mac st) = 6"
    using assms(1,6) by (simp_all add: ready_def node_ok_def)
  note enc = length_cipher [OF dst(2) assms(5) s(2)]
  let ?pkts = "message_packets st dst enc"
  let ?q = "map (\<lambda>p. queued dst (payload_bytes p) (time_now env)) ?pkts"
  let ?ps = "delivery_packets (my_mac st') (seq_num st') ?q"
  let ?out = "map (\<lambda>p. \<lparr> out_index = if_index (net st), out_addr = dst, out_bytes = packet_bytes p,
    accepted = (0 \<le> sendto_result env' p) \<rparr>) ?ps"
  have pkts: "\<forall>p \<in> set ?pkts. sendable p \<and> ptype (header p) = DATA \<and> source (header p) = my_mac st \<and> dest (header p) = dst"
    using message_packets_spec [OF assms(1) dst(1) enc(2)] by blast
  have q: "\<forall>e \<in> set ?q. dest_mac e = dst"
    by (simp add: queued_def)
  then have pend: "?q = filter (\<lambda>e. dest_mac e = dst) (es @ ?q)" "filter (\<lambda>e. dest_mac e \<noteq> dst) (es @ ?q) = es"
    using assms(9) by (simp_all add: filter_empty_conv filter_id_conv)
  from auto_deliver_sends [OF s(3) dst(1) pend(1), of env'] obtain lt d where
    d: "auto_deliver env' dst st' = Inr (st' \<lparr> log_text := lt, seq_num := seq_num st' + of_nat (length ?q), queue := d,
      sent_frames := sent_frames st' @ frames_to env' (net st') (zip ?ps (map dest_mac ?q)) \<rparr>)" "stores d es"
    unfolding pend(2) by blast
  let ?st2 = "st' \<lparr> log_text := lt, seq_num := seq_num st' + of_nat (length ?q), queue := d,
      sent_frames := sent_frames st' @ frames_to env' (net st') (zip ?ps (map dest_mac ?q)) \<rparr>"
  have "map dest_mac ?q = map (\<lambda>p. dst) ?q"
    using q by (simp add: queued_def)
  then have "zip ?ps (map dest_mac ?q) = map (\<lambda>p. (p, dst)) ?ps"
    by (simp only: zip_const length_delivery_packets)
  moreover have "0 \<le> sock_fd (net st')" "if_index (net st') \<noteq> 0"
    using s(5) by (simp_all add: ready_def)
  ultimately have "frames_to env' (net st') (zip ?ps (map dest_mac ?q)) = ?out"
    using s(6) by (simp add: frames_to_open)
  then have out: "sent_frames ?st2 = sent_frames st @ ?out"
    by (simp add: s(4))
  then have refused: "(\<forall>p. sendto_result env' p < 0) \<longrightarrow> filter accepted (sent_frames ?st2) = filter accepted (sent_frames st)"
    by (simp only: filter_append) (simp add: filter_empty_conv not_le)
  have "list_all2 carries ?pkts ?ps"
    unfolding s(7) by (rule delivery_carries [OF dst(3,1) pkts])
  moreover have "stores (queue ?st2) es"
    using d(2) by simp
  ultimately show ?thesis
    using s(1,2,4) d(1) out refused by blast
qed

theorem queued_message_sent_once_witness:
  "\<exists>txt st' enc st'' ps. send_command some_env one_line (started_node (replicate 6 7)) = Inr (txt, st') \<and>
    auto_deliver (some_env \<lparr> sendto_result := \<lambda>p. - 1 \<rparr>) (replicate 6 1) st' = Inr st'' \<and>
    list_all2 carries (message_packets (started_node (replicate 6 7)) (replicate 6 1) enc) ps \<and>
    length (sent_frames st'') = length ps \<and> filter accepted (sent_frames st'') = [] \<and> stores (queue st'') []"
proof -
  let ?env' = "some_env \<lparr> sendto_result := \<lambda>p. - 1 \<rparr>"
  have ready: "ready some_env (started_node (replicate 6 7))"
    by (rule ready_started) simp
  have q: "stores (queue (started_node (replicate 6 7))) []" "sent_frames (started_node (replicate 6 7)) = []"
    by (simp_all add: started_node_def stores_def)
  have none: "\<forall>e \<in> set []. dest_mac e \<noteq> string_to_mac one_target"
    by simp
  have refused: "\<forall>p. sendto_result ?env' p < 0"
    by simp
  obtain t st' enc st'' ps where r: "send_command some_env one_line (started_node (replicate 6 7)) = Inr (t, st')"
      "auto_deliver ?env' (replicate 6 1) st' = Inr st''" "stores (queue st'') []"
      "list_all2 carries (message_packets (started_node (replicate 6 7)) (replicate 6 1) enc) ps"
      "sent_frames st'' = map (\<lambda>p. \<lparr> out_index = if_index (net (started_node (replicate 6 7))), out_addr = replicate 6 1,
        out_bytes = packet_bytes p, accepted = (0 \<le> sendto_result ?env' p) \<rparr>) ps"
      "filter accepted (sent_frames st'') = []"
    using queued_message_sent_once [OF ready one_line one_target(3) hi_fits refl unreachable_started q(1) none, of ?env'] refused
    unfolding one_target(1) q(2) append_Nil filter.simps(1) by blast
  from r(5) have "length (sent_frames st'') = length ps"
    by simp
  with r(1-4,6) show ?thesis by blast
qed

section \<open>Acknowledgements\<close>

text \<open>
  C18: An acknowledgement clears a message only by chance.  After \<open>send\<close> the message is
  pending under the counter \<open>next_ack_seq\<close>.  \<open>send_ack\<close>, which the receive loop calls with the
  sequence number of the packet it read, quotes that number; and any \<open>ACK\<close> packet that
  quotes the number of a packet of the message clears the message exactly when that number
  happens to equal the counter.  (No receiver gets as far as acknowledging: it locks the
  mutex twice before.)
\<close>
theorem acknowledgement_matches_by_chance:
  assumes "ready env st" and "send_arguments args = (target, message)" and "target \<noteq> []" and "message \<noteq> []"
    and "length message \<le> 1007" and "dst = string_to_mac target" and "reachable env target dst st"
    and "message_cipher env st dst message = Inr enc" and "p \<in> set (message_packets st dst enc)"
    and "ready renv rcv" and "wf_packet q" and "ptype (header q) = ACK" and "4 \<le> unat (payload_len (header q))"
    and "take 4 (payload q) = le_bytes 4 (sequence_id (header p))"
  shows "\<exists>a txt st' st''. sent_frames (send_ack renv (source (header p)) dst (sequence_id (header p)) rcv) =
      sent_frames rcv @ [frame_to renv rcv (my_mac st) a] \<and>
    wf_packet a \<and> ptype (header a) = ACK \<and> unat (payload_len (header a)) = 4 \<and>
    take 4 (payload a) = le_bytes 4 (sequence_id (header p)) \<and>
    send_command env args st = Inr (txt, st') \<and> m_find (pending_acks st') (next_ack_seq st) \<noteq> None \<and>
    handle_packet env' q st' = Inr st'' \<and>
    (m_find (pending_acks st'') (next_ack_seq st) = None \<longleftrightarrow> sequence_id (header p) = next_ack_seq st)"
proof -
  obtain t st' where s: "send_command env args st = Inr (t, st')"
      "pending_acks st' = m_put (next_ack_seq st) \<lparr> ack_dest = dst, retries = 0, sent_time = steady env,
        original_msg = message, ack_seq_num = next_ack_seq st \<rparr> (pending_acks st)"
      "ready env st'"
    using send_reachable [OF assms(1-7)] by (elim exE conjE) blast
  have st': "node_ok st'" "\<not> net_mutex st'" "length dst = 6" "env_ok env" "length (my_mac st) = 6"
    using s(3) assms(1,6) by (simp_all add: ready_def node_ok_def)
  have src: "source (header p) = my_mac st"
    using message_packets_spec [OF assms(1) st'(3) length_cipher(2) [OF st'(4) assms(5,8)] assms(9)] by simp
  have rcv: "0 \<le> sock_fd (net rcv)" "if_index (net rcv) \<noteq> 0"
    using assms(10) by (simp_all add: ready_def)
  let ?a = "ack_packet dst (my_mac st) (sequence_id (header p))"
  have "sent_frames (send_ack renv (source (header p)) dst (sequence_id (header p)) rcv) =
      sent_frames rcv @ [frame_to renv rcv (my_mac st) ?a]"
    by (simp add: send_ack_open rcv src)
  moreover have "wf_packet ?a" "ptype (header ?a) = ACK" "payload_bytes ?a = le_bytes 4 (sequence_id (header p))"
      "unat (payload_len (header ?a)) = 4"
    using st'(3,5) by (simp_all add: ack_packet_def MAX_PAYLOAD_SIZE_def)
  moreover from this have "take 4 (payload ?a) = le_bytes 4 (sequence_id (header p))"
    by (simp add: payload_bytes_def)
  moreover obtain st'' where "handle_packet env' q st' = Inr st''"
    "\<forall>k. m_find (pending_acks st'') k = (if k = sequence_id (header p) then None else m_find (pending_acks st') k)"
    using ack_erases [OF st'(1,2) assms(11-14)] by blast
  ultimately show ?thesis
    using s(1,2) by (intro exI [of _ ?a] exI [of _ t] exI [of _ st'] exI [of _ st'']) simp
qed

theorem acknowledgement_matches_by_chance_witness:
  "\<exists>txt st' st''. send_command some_env one_line friend = Inr (txt, st') \<and>
    handle_packet some_env (ack_packet (replicate 6 1) (my_mac friend) 0) st' = Inr st'' \<and> m_find (pending_acks st'') 1 \<noteq> None"
proof -
  obtain enc where enc: "message_cipher some_env friend (string_to_mac one_target) ''hi'' = Inr enc"
    using message_cipher_fits [OF some_env_ok hi_fits(2)] by blast
  let ?p = "set_payload (init DATA (my_mac friend) (string_to_mac one_target) (seq_num friend)) enc"
  have "length enc \<le> 480"
    using length_cipher(1) [OF some_env_ok hi_fits(2) enc] by simp
  then have mem: "?p \<in> set (message_packets friend (string_to_mac one_target) enc)"
    by (simp add: message_packets_def fragment_message_def frag_sizes)
  have seq: "sequence_id (header ?p) = 0"
    by (simp add: friend_def started_node_def)
  let ?q = "ack_packet (replicate 6 1) (my_mac friend) 0"
  have six: "length (my_mac friend) = 6" "length (replicate 6 (1 :: u8)) = 6"
    by (simp_all add: friend_def started_node_def)
  then have q: "wf_packet ?q" "ptype (header ?q) = ACK" "payload_bytes ?q = le_bytes 4 (0 :: u32)" "unat (payload_len (header ?q)) = 4"
    by (simp_all add: ack_packet_def MAX_PAYLOAD_SIZE_def)
  then have four: "4 \<le> unat (payload_len (header ?q))" "take 4 (payload ?q) = le_bytes 4 (sequence_id (header ?p))"
    unfolding seq by (simp_all add: payload_bytes_def)
  obtain t st' st'' where "send_command some_env one_line friend = Inr (t, st')" "handle_packet some_env ?q st' = Inr st''"
      "m_find (pending_acks st'') 1 = None \<longleftrightarrow> (0 :: u32) = 1"
    using acknowledgement_matches_by_chance [OF ready_friend one_line one_target(3) hi_fits refl reachable_friend enc mem
        ready_started [OF six(2)] q(1,2) four, of some_env]
    unfolding friend_fields(6) seq by (elim exE conjE) (rule that)
  then show ?thesis
    by (intro exI [of _ t] exI [of _ st'] exI [of _ st'']) simp
qed

section \<open>Discovery\<close>

text \<open>
  C11: Discovery, for packets that reach the handler as they were sent.  The \<open>DISCOVERY\<close>
  packet of a node makes the handler of any other node list it as a neighbour and answer
  with its neighbours, and from the answer the first learns its neighbour and a route of at
  most two hops to each of the first 73 listed, itself included.  (On the wire the packets
  do not arrive as they were sent: without an Ethernet header they are misread.)
\<close>
theorem discovery_exchange:
  assumes "ready env a" and "ready env' b" and "get_pending (queue b) (my_mac a) = []"
    and "carries (hello_packet a) h"
  shows "sent_frames (send_hello env a) = sent_frames a @ [frame_to env a broadcast (hello_packet a)] \<and>
    (\<exists>b' r. handle_packet env' h b = Inr b' \<and> mac_to_string (my_mac a) \<in> set (known_neighbors b') \<and>
      sent_frames b' = sent_frames b @ [frame_to env' b (my_mac a) r] \<and> carries r r \<and>
      (\<forall>q. carries r q \<longrightarrow>
        (\<exists>a'. handle_packet env q (send_hello env a) = Inr a' \<and>
          mac_to_string (my_mac b) \<in> set (known_neighbors a') \<and>
          (\<forall>n \<in> set (take 73 (known_neighbors b')).
            \<exists>e. known_route (my_table a') (string_to_mac n) = Some e \<and> fst (snd e) \<le> 2))))"
proof -
  have a: "node_ok a" "\<not> net_mutex a" "0 \<le> sock_fd (net a)" "if_index (net a) \<noteq> 0" "length (my_mac a) = 6"
    using assms(1) by (simp_all add: ready_def node_ok_def)
  have b: "node_ok b" "\<not> net_mutex b" "env_ok env'" "0 \<le> sock_fd (net b)" "if_index (net b) \<noteq> 0" "length (my_mac b) = 6"
      "length (adv_memory env') = 512"
    using assms(2) by (simp_all add: ready_def node_ok_def env_ok_def)
  let ?a1 = "send_hello env a"
  have hello: "?a1 = a \<lparr> seq_num := seq_num a + 1, sent_frames := sent_frames a @ [frame_to env a broadcast (hello_packet a)] \<rparr>"
    by (rule send_hello_open [OF a(3,4)])
  have a1: "node_ok ?a1" "\<not> net_mutex ?a1" "my_mac ?a1 = my_mac a"
    using a by (simp_all add: hello node_ok_def)
  have h: "wf_packet h" "ptype (header h) = DISCOVERY" "source (header h) = my_mac a"
    using assms(4) hello_packet_spec [OF a(5)] by (simp_all add: carries_def)
  obtain b' len buf where b': "handle_packet env' h b = Inr b'" "mac_to_string (my_mac a) \<in> set (known_neighbors b')"
      "pack_routes (known_neighbors b') (adv_memory env') 512 = Inr (len, buf)"
      "sent_frames b' = sent_frames b @
        [frame_to env' b (my_mac a) (set_payload (init ROUTE_ADV (my_mac b) (my_mac a) (seq_num b)) (take len buf))]"
    using hello_answered [OF b(1-5) h assms(3)] by blast
  have "carries (set_payload (init ROUTE_ADV (my_mac b) (my_mac a) (seq_num b)) (take len buf))
      (set_payload (init ROUTE_ADV (my_mac b) (my_mac a) (seq_num b)) (take len buf))"
    by (rule adv_carried [OF b(6) a(5) b(7) b'(3)])
  moreover note learned = adv_learned [OF a1(1,2) b(6,7) b'(3), unfolded a1(3), of "seq_num b", where env = env]
  moreover have "sent_frames ?a1 = sent_frames a @ [frame_to env a broadcast (hello_packet a)]"
    by (simp add: hello)
  ultimately show ?thesis
    using b'(1,2,4) by blast
qed

theorem discovery_exchange_witness:
  "\<exists>b' r a'. handle_packet some_env (hello_packet (started_node (replicate 6 1))) (started_node (replicate 6 2)) = Inr b' \<and>
    mac_to_string (replicate 6 1) \<in> set (known_neighbors b') \<and>
    sent_frames b' = [frame_to some_env (started_node (replicate 6 2)) (replicate 6 1) r] \<and>
    handle_packet some_env r (send_hello some_env (started_node (replicate 6 1))) = Inr a' \<and>
    mac_to_string (replicate 6 2) \<in> set (known_neighbors a')"
proof -
  have six: "length (replicate 6 (1 :: u8)) = 6" "length (replicate 6 (2 :: u8)) = 6"
    by simp_all
  have my: "my_mac (started_node m) = m" "sent_frames (started_node m) = []" "stores (queue (started_node m)) []" for m
    by (simp_all add: started_node_def stores_def)
  have pend: "get_pending (queue (started_node (replicate 6 2))) (my_mac (started_node (replicate 6 1))) = []"
    using stores_get_all [OF my(3)] by (simp add: get_pending_eq)
  have "length (my_mac (started_node (replicate 6 1))) = 6"
    by (simp add: my(1))
  then have "carries (hello_packet (started_node (replicate 6 1))) (hello_packet (started_node (replicate 6 1)))"
    using hello_packet_spec [of "started_node (replicate 6 1)"] by (simp add: carries_def)
  from discovery_exchange [OF ready_started [OF six(1)] ready_started [OF six(2)] pend this] show ?thesis
    unfolding my(1,2) append_Nil by blast
qed

end
